theory Spec2Isabelle
  imports Main "HOL-Library.Word" "HOL-Library.Monad_Syntax"
begin

section \<open>The scalar kernels of \<open>MantaRay::SIMD\<close> (src/SIMD.h)\<close>

text \<open>
  The development embeds the scalar code path of the four kernels (the \<open>#else\<close>
  branches, lines 76-77, 132-133, 203-206 and 291-299 of \<open>SIMD.h\<close>). The two vector
  code paths call the backend classes \<open>Avx512\<close>, \<open>Avx\<close> and \<open>Avx2\<close>, which are
  not part of the file.

  \<^item> A \<open>std::array<T, N>\<close> is a list; the template parameter \<open>N\<close> is an explicit
    argument of each kernel and the hypotheses of the theorems say that the list has that
    length.
  \<^item> \<open>operator[]\<close> performs no bounds check and an access beyond the array is undefined
    behaviour. The embedding makes every access checked: \<open>array_get\<close> and
    \<open>array_set\<close> return \<open>None\<close> out of range, and a kernel returns \<open>None\<close> as soon
    as one of its accesses does.
  \<^item> \<open>AddToAll\<close>, \<open>SubtractFromAll\<close> and \<open>SubtractAndAddToAll\<close> take their three
    arrays by reference, and nothing prevents a caller from passing the same array twice
    (\<open>inputA\<close> and \<open>inputB\<close> have the same type; \<open>delta\<close> has it too when
    \<open>DeltaSize = InputSize\<close>). These kernels are therefore embedded over a store that maps
    references to arrays: a parameter is a reference, and two parameters are the same array
    exactly when they are the same reference. Two different \<open>std::array\<close> objects never
    overlap, so there is no partial aliasing.
  \<^item> \<open>ActivateFlattenAndForward\<close> reads arrays of \<open>T\<close> through const references and
    writes only \<open>output\<close>, an array of \<open>OT\<close>. When \<open>OT\<close> and \<open>T\<close> are different
    types, \<open>output\<close> is none of the arrays read, and the kernel is embedded on array
    values. When they are the same type, \<open>output\<close> can be one of the arrays read; a
    second embedding, over a store, covers that case.
  \<^item> The element type \<open>T\<close> is a type variable with the operations the kernel uses
    (\<open>+\<close>, \<open>-\<close>). For a machine integer type this is \<open>'a word\<close>, whose operations
    wrap around; for a type narrower than \<open>int\<close> the C++ expression is evaluated in
    \<open>int\<close> and truncated on assignment, which gives the same value modulo the width.
  \<^item> Offsets are \<open>uint32_t\<close> (\<open>32 word\<close>); the index \<open>o + i\<close> is computed in
    \<open>size_t\<close> and is modelled as the natural number \<open>unat o + i\<close>.
\<close>

subsection \<open>Checked array access\<close>

definition array_get :: "'a list \<Rightarrow> nat \<Rightarrow> 'a option" where
  "array_get xs i = (if i < length xs then Some (xs ! i) else None)"

definition array_set :: "'a list \<Rightarrow> nat \<Rightarrow> 'a \<Rightarrow> 'a list option" where
  "array_set xs i v = (if i < length xs then Some (xs[i := v]) else None)"

subsection \<open>The counting loop\<close>

text \<open>
  \<open>for (size_t i = i0; i < n; i++) body\<close>, on a state that the body may fail to
  update.
\<close>

function for_loop :: "nat \<Rightarrow> nat \<Rightarrow> (nat \<Rightarrow> 's \<Rightarrow> 's option) \<Rightarrow> 's \<Rightarrow> 's option" where
  "for_loop i n body s =
     (if i < n
      then (case body i s of None \<Rightarrow> None | Some s' \<Rightarrow> for_loop (Suc i) n body s')
      else Some s)"
  by pat_completeness auto
termination
  by (relation "measure (\<lambda>(i, n, body, s). n - i)") auto

declare for_loop.simps [simp del]

subsection \<open>Arrays behind references\<close>

text \<open>
  A store gives the array behind each reference. \<open>store_of\<close> builds the store in which
  reference \<open>r\<close> holds the \<open>r\<close>-th array of a list, and \<open>fetch\<close> reads the arrays
  behind a list of references; both serve to write down concrete calls and their results.
\<close>

type_synonym 'a store = "nat \<Rightarrow> 'a list"

definition store_of :: "'a list list \<Rightarrow> 'a store" where
  "store_of xss r = (if r < length xss then xss ! r else [])"

definition fetch :: "nat list \<Rightarrow> 'a store \<Rightarrow> 'a list list" where
  "fetch rs s = map s rs"

subsection \<open>AddToAll, SubtractFromAll, SubtractAndAddToAll\<close>

text \<open>
  \<open>inputA\<close>, \<open>inputB\<close> and \<open>delta\<close> are the references passed to the kernel. Every
  read and write goes through the current store, as it goes through the reference in the
  source.

  \<^verbatim>\<open>for (size_t i = 0; i < InputSize; i++) inputA[i] += delta[oA + i];\<close>
  \<^verbatim>\<open>for (size_t i = 0; i < InputSize; i++) inputB[i] += delta[oB + i];\<close>
\<close>

definition AddToAll ::
  "nat \<Rightarrow> nat \<Rightarrow> nat \<Rightarrow> nat \<Rightarrow> 32 word \<Rightarrow> 32 word \<Rightarrow> 'a::plus store \<Rightarrow> 'a store option" where
  "AddToAll InputSize inputA inputB delta oA oB s = do {
     s' \<leftarrow> for_loop 0 InputSize (\<lambda>i s. do {
         x \<leftarrow> array_get (s inputA) i;
         d \<leftarrow> array_get (s delta) (unat oA + i);
         a \<leftarrow> array_set (s inputA) i (x + d);
         Some (s(inputA := a)) }) s;
     for_loop 0 InputSize (\<lambda>i s. do {
         x \<leftarrow> array_get (s inputB) i;
         d \<leftarrow> array_get (s delta) (unat oB + i);
         b \<leftarrow> array_set (s inputB) i (x + d);
         Some (s(inputB := b)) }) s' }"

text \<open>
  \<^verbatim>\<open>for (size_t i = 0; i < InputSize; i++) inputA[i] -= delta[oA + i];\<close>
  \<^verbatim>\<open>for (size_t i = 0; i < InputSize; i++) inputB[i] -= delta[oB + i];\<close>
\<close>

definition SubtractFromAll ::
  "nat \<Rightarrow> nat \<Rightarrow> nat \<Rightarrow> nat \<Rightarrow> 32 word \<Rightarrow> 32 word \<Rightarrow> 'a::minus store \<Rightarrow> 'a store option" where
  "SubtractFromAll InputSize inputA inputB delta oA oB s = do {
     s' \<leftarrow> for_loop 0 InputSize (\<lambda>i s. do {
         x \<leftarrow> array_get (s inputA) i;
         d \<leftarrow> array_get (s delta) (unat oA + i);
         a \<leftarrow> array_set (s inputA) i (x - d);
         Some (s(inputA := a)) }) s;
     for_loop 0 InputSize (\<lambda>i s. do {
         x \<leftarrow> array_get (s inputB) i;
         d \<leftarrow> array_get (s delta) (unat oB + i);
         b \<leftarrow> array_set (s inputB) i (x - d);
         Some (s(inputB := b)) }) s' }"

text \<open>
  One loop with two statements; the second one runs in the store that the first one left:
  \<^verbatim>\<open>inputA[i] = inputA[i] - delta[oAS + i] + delta[oAA + i];\<close>
  \<^verbatim>\<open>inputB[i] = inputB[i] - delta[oBS + i] + delta[oBA + i];\<close>
\<close>

definition SubtractAndAddToAll ::
  "nat \<Rightarrow> nat \<Rightarrow> nat \<Rightarrow> nat \<Rightarrow> 32 word \<Rightarrow> 32 word \<Rightarrow> 32 word \<Rightarrow> 32 word
    \<Rightarrow> 'a::{plus,minus} store \<Rightarrow> 'a store option" where
  "SubtractAndAddToAll InputSize inputA inputB delta oAS oAA oBS oBA s =
     for_loop 0 InputSize (\<lambda>i s. do {
         x \<leftarrow> array_get (s inputA) i;
         d \<leftarrow> array_get (s delta) (unat oAS + i);
         e \<leftarrow> array_get (s delta) (unat oAA + i);
         a \<leftarrow> array_set (s inputA) i (x - d + e);
         s' \<leftarrow> Some (s(inputA := a));
         y \<leftarrow> array_get (s' inputB) i;
         d' \<leftarrow> array_get (s' delta) (unat oBS + i);
         e' \<leftarrow> array_get (s' delta) (unat oBA + i);
         b \<leftarrow> array_set (s' inputB) i (y - d' + e');
         Some (s'(inputB := b)) }) s"

text \<open>
  The store in which the array behind \<open>r\<close> has element \<open>i\<close> replaced, for every
  \<open>i < n\<close>, by a function of that element and of one or two elements of the array
  behind \<open>d\<close>, all read in the store \<open>s\<close>. These are the closed forms that the loops
  are compared with below; they are not part of the source.
\<close>

definition slice_update ::
  "('a \<Rightarrow> 'a \<Rightarrow> 'a) \<Rightarrow> nat \<Rightarrow> nat \<Rightarrow> nat \<Rightarrow> nat \<Rightarrow> 'a store \<Rightarrow> 'a store" where
  "slice_update f r d off n s = s(r := map (\<lambda>i. f (s r ! i) (s d ! (off + i))) [0..<n])"

definition slice_update2 ::
  "('a \<Rightarrow> 'a \<Rightarrow> 'a \<Rightarrow> 'a) \<Rightarrow> nat \<Rightarrow> nat \<Rightarrow> nat \<Rightarrow> nat \<Rightarrow> nat \<Rightarrow> 'a store \<Rightarrow> 'a store" where
  "slice_update2 f r d off off' n s =
     s(r := map (\<lambda>i. f (s r ! i) (s d ! (off + i)) (s d ! (off' + i))) [0..<n])"

subsection \<open>Two fragments of floating-point arithmetic\<close>

text \<open>
  \<open>T\<close> may be a floating-point type. Two fragments of IEEE 754 arithmetic in the
  default rounding mode are enough to decide the claims that speak of every element type.

  The first fragment is the two zeros, which are closed under addition and subtraction:
  \<open>x + y\<close> is \<open>-0\<close> only for \<open>(-0) + (-0)\<close>, and \<open>x - y\<close> is \<open>-0\<close> only for
  \<open>(-0) - (+0)\<close>. The literal \<open>0\<close> is \<open>+0\<close>.
\<close>

datatype signed_zero = PZ | NZ

instantiation signed_zero :: "{zero,plus,minus}"
begin
definition zero_signed_zero :: signed_zero where
  "zero_signed_zero = PZ"
definition plus_signed_zero :: "signed_zero \<Rightarrow> signed_zero \<Rightarrow> signed_zero" where
  "plus_signed_zero x y = (if x = NZ \<and> y = NZ then NZ else PZ)"
definition minus_signed_zero :: "signed_zero \<Rightarrow> signed_zero \<Rightarrow> signed_zero" where
  "minus_signed_zero x y = (if x = NZ \<and> y = PZ then NZ else PZ)"
instance ..
end

text \<open>
  The second fragment is the finite \<open>binary32\<close> numbers whose value is an integer:
  \<open>Float32 x\<close> is the number of value \<open>x\<close>. Sum and difference are the exact result,
  rounded to a significand of 24 bits, to nearest and ties to even. \<open>binary32_ulp a\<close> is
  the spacing of \<open>binary32\<close> at the magnitude \<open>a\<close>, which is 1 below \<open>2 ^ 24\<close> and
  doubles with every further bit. Overflow to infinity is not modelled; the numbers used
  below are far from it.
\<close>

function binary32_ulp :: "int \<Rightarrow> int" where
  "binary32_ulp a = (if a < 16777216 then 1 else 2 * binary32_ulp (a div 2))"
  by pat_completeness auto
termination
  by (relation "measure nat") auto

declare binary32_ulp.simps [simp del]

definition round_to_binary32 :: "int \<Rightarrow> int" where
  "round_to_binary32 x =
     (let a = \<bar>x\<bar>;
          q = binary32_ulp a;
          m = a div q;
          r = a mod q;
          m' = (if 2 * r < q then m
                else if q < 2 * r then m + 1
                else if even m then m else m + 1)
      in sgn x * (m' * q))"

datatype float32 = Float32 int

instantiation float32 :: "{zero,plus,minus}"
begin
definition zero_float32 :: float32 where
  "zero_float32 = Float32 0"
fun plus_float32 :: "float32 \<Rightarrow> float32 \<Rightarrow> float32" where
  "plus_float32 (Float32 x) (Float32 y) = Float32 (round_to_binary32 (x + y))"
fun minus_float32 :: "float32 \<Rightarrow> float32 \<Rightarrow> float32" where
  "minus_float32 (Float32 x) (Float32 y) = Float32 (round_to_binary32 (x - y))"
instance ..
end

subsection \<open>ActivateFlattenAndForward\<close>

text \<open>
  The template parameters \<open>T\<close>, \<open>OT\<close> and \<open>Activation\<close> are not fixed by the
  file, so their operations are arguments of the model:
  \<^item> \<open>Activate\<close> is \<open>Activation::Activate\<close> on one element;
  \<^item> \<open>times_T x w\<close> is the value that the C++ expression \<open>x * w\<close> on two values of
    type \<open>T\<close> contributes to \<open>sum += x * w\<close>, that is the product after the usual
    arithmetic conversions, converted to \<open>OT\<close>;
  \<^item> \<open>to_OT b\<close> is the value of type \<open>OT\<close> that \<open>sum + b\<close> adds for a bias
    \<open>b\<close> of type \<open>T\<close>;
  \<^item> \<open>OT\<close> is a type with \<open>0\<close> and \<open>+\<close>.

  The scalar body of the outer loop, for output neuron \<open>i\<close>:
  \<^verbatim>\<open>OT sum = 0;\<close>
  \<^verbatim>\<open>for (size_t j = 0; j < InputSize; j++) {\<close>
  \<^verbatim>\<open>    sum += Activation::Activate(inputA[j]) * weight[stride + j];\<close>
  \<^verbatim>\<open>    sum += Activation::Activate(inputB[j]) * weight[InputSize + stride + j];\<close>
  \<^verbatim>\<open>}\<close>
  \<^verbatim>\<open>stride += InputSize * 2;\<close>
  \<^verbatim>\<open>output[o + i] = sum + bias[o + i];\<close>
  The parameter \<open>o\<close> is called \<open>off\<close> below.

  The inner loop threads \<open>sum\<close>; each of its two statements reads an input and a
  weight and adds their product to \<open>sum\<close>. The state of the outer loop is
  \<open>stride\<close> and \<open>output\<close>. A third component is not
  in the source: it records, in order, the positions at which the call reads \<open>bias\<close> and
  writes \<open>output\<close>, so that statements about where and how often these accesses happen
  can be made. It never influences the other two components.
\<close>

datatype access = BiasRead nat | OutputWrite nat

definition ActivateFlattenAndForward_traced ::
  "('a \<Rightarrow> 'a) \<Rightarrow> ('a \<Rightarrow> 'a \<Rightarrow> 'b::{zero,plus}) \<Rightarrow> ('a \<Rightarrow> 'b) \<Rightarrow> nat \<Rightarrow> nat
    \<Rightarrow> 'a list \<Rightarrow> 'a list \<Rightarrow> 'a list \<Rightarrow> 'a list \<Rightarrow> 'b list \<Rightarrow> 32 word
    \<Rightarrow> ('b list \<times> access list) option" where
  "ActivateFlattenAndForward_traced Activate times_T to_OT InputSize OutputSize
       inputA inputB weight bias output off = do {
     (stride, output', log) \<leftarrow> for_loop 0 OutputSize (\<lambda>i (stride, out, log). do {
         sum \<leftarrow> for_loop 0 InputSize (\<lambda>j sum. do {
             a \<leftarrow> array_get inputA j;
             w \<leftarrow> array_get weight (stride + j);
             sum' \<leftarrow> Some (sum + times_T (Activate a) w);
             b \<leftarrow> array_get inputB j;
             w' \<leftarrow> array_get weight (InputSize + stride + j);
             Some (sum' + times_T (Activate b) w') }) 0;
         bv \<leftarrow> array_get bias (unat off + i);
         out' \<leftarrow> array_set out (unat off + i) (sum + to_OT bv);
         Some (stride + InputSize * 2, out',
               log @ [BiasRead (unat off + i), OutputWrite (unat off + i)]) }) (0, output, []);
     Some (output', log) }"

definition ActivateFlattenAndForward ::
  "('a \<Rightarrow> 'a) \<Rightarrow> ('a \<Rightarrow> 'a \<Rightarrow> 'b::{zero,plus}) \<Rightarrow> ('a \<Rightarrow> 'b) \<Rightarrow> nat \<Rightarrow> nat
    \<Rightarrow> 'a list \<Rightarrow> 'a list \<Rightarrow> 'a list \<Rightarrow> 'a list \<Rightarrow> 'b list \<Rightarrow> 32 word
    \<Rightarrow> 'b list option" where
  "ActivateFlattenAndForward Activate times_T to_OT InputSize OutputSize
       inputA inputB weight bias output off =
     map_option fst (ActivateFlattenAndForward_traced Activate times_T to_OT InputSize OutputSize
       inputA inputB weight bias output off)"

text \<open>
  When \<open>OT\<close> is the same type as \<open>T\<close>, the output array can be one of the arrays
  that the kernel reads: \<open>bias\<close>, or \<open>inputA\<close> or \<open>inputB\<close> when
  \<open>OutputSize = InputSize\<close>. (Arrays of different element types are different
  objects.) This second embedding of the same scalar code covers that case: the five
  arrays are behind references into one store, and every read goes through the current
  store. It keeps no record of accesses.
\<close>

definition ActivateFlattenAndForward_shared ::
  "('a \<Rightarrow> 'a) \<Rightarrow> ('a \<Rightarrow> 'a \<Rightarrow> 'a::{zero,plus}) \<Rightarrow> ('a \<Rightarrow> 'a) \<Rightarrow> nat \<Rightarrow> nat
    \<Rightarrow> nat \<Rightarrow> nat \<Rightarrow> nat \<Rightarrow> nat \<Rightarrow> nat \<Rightarrow> 32 word \<Rightarrow> 'a store \<Rightarrow> 'a store option" where
  "ActivateFlattenAndForward_shared Activate times_T to_OT InputSize OutputSize
       inputA inputB weight bias output off s = do {
     (stride, s') \<leftarrow> for_loop 0 OutputSize (\<lambda>i (stride, s). do {
         sum \<leftarrow> for_loop 0 InputSize (\<lambda>j sum. do {
             a \<leftarrow> array_get (s inputA) j;
             w \<leftarrow> array_get (s weight) (stride + j);
             sum' \<leftarrow> Some (sum + times_T (Activate a) w);
             b \<leftarrow> array_get (s inputB) j;
             w' \<leftarrow> array_get (s weight) (InputSize + stride + j);
             Some (sum' + times_T (Activate b) w') }) 0;
         bv \<leftarrow> array_get (s bias) (unat off + i);
         out' \<leftarrow> array_set (s output) (unat off + i) (sum + to_OT bv);
         Some (stride + InputSize * 2, s(output := out')) }) (0, s);
     Some s' }"

text \<open>
  The shapes that the signature gives to the arguments:
  \<^verbatim>\<open>const std::array<T, InputSize>& inputA, const std::array<T, InputSize>& inputB,\<close>
  \<^verbatim>\<open>const std::array<T, InputSize * 2 * OutputSize>& weight,\<close>
  \<^verbatim>\<open>const std::array<T, OutputSize>& bias, std::array<OT, OutputSize>& output\<close>
\<close>

definition forward_shapes ::
  "nat \<Rightarrow> nat \<Rightarrow> 'a list \<Rightarrow> 'a list \<Rightarrow> 'a list \<Rightarrow> 'a list \<Rightarrow> 'b list \<Rightarrow> bool" where
  "forward_shapes InputSize OutputSize inputA inputB weight bias output \<longleftrightarrow>
     length inputA = InputSize \<and> length inputB = InputSize
     \<and> length weight = InputSize * 2 * OutputSize
     \<and> length bias = OutputSize \<and> length output = OutputSize"

text \<open>
  An instance: \<open>T = int16_t\<close> and \<open>OT = int32_t\<close>. Both factors are promoted to
  \<open>int\<close>, the product is an \<open>int\<close>, and \<open>sum + bias[o + i]\<close> promotes the bias.
\<close>

definition times_int16 :: "16 word \<Rightarrow> 16 word \<Rightarrow> 32 word" where
  "times_int16 x w = scast x * scast w"

definition int16_to_int32 :: "16 word \<Rightarrow> 32 word" where
  "int16_to_int32 b = scast b"

section \<open>Properties\<close>

subsection \<open>The loop rule\<close>

text \<open>
  Total correctness of the counting loop from an invariant: if every iteration from a
  state satisfying the invariant succeeds and re-establishes it, the loop returns a state
  satisfying the invariant at the bound. In particular a loop whose every iteration
  returns the state it started from returns that state.
\<close>

lemma for_loop_rule:
  assumes "I i s" and "i \<le> n"
    and "\<And>k t. i \<le> k \<Longrightarrow> k < n \<Longrightarrow> I k t \<Longrightarrow> \<exists>t'. body k t = Some t' \<and> I (Suc k) t'"
  shows "\<exists>s'. for_loop i n body s = Some s' \<and> I n s'"
  using assms
proof (induction i n body s rule: for_loop.induct)
  case (1 i n body s)
  show ?case
  proof (cases "i < n")
    case False
    with "1.prems" have "i = n" by simp
    with "1.prems"(1) show ?thesis by (simp add: for_loop.simps)
  next
    case True
    from "1.prems"(3) [of i s] True "1.prems"(1)
    obtain t where t: "body i s = Some t" "I (Suc i) t" by auto
    have "\<exists>s'. for_loop (Suc i) n body t = Some s' \<and> I n s'"
    proof (rule "1.IH" [OF True t(1) t(2)])
      show "Suc i \<le> n" using True by simp
    next
      fix k u assume "Suc i \<le> k" "k < n" "I k u"
      then show "\<exists>t'. body k u = Some t' \<and> I (Suc k) t'"
        using "1.prems"(3) [of k u] by simp
    qed
    with True t(1) show ?thesis by (subst for_loop.simps) simp
  qed
qed

lemma for_loop_unchanged:
  assumes "\<And>k. k < n \<Longrightarrow> body k s = Some s"
  shows "for_loop 0 n body s = Some s"
proof -
  have "\<exists>s'. for_loop 0 n body s = Some s' \<and> s' = s"
    by (rule for_loop_rule [where I = "\<lambda>k t. t = s"]) (simp_all add: assms)
  then show ?thesis by simp
qed

subsection \<open>Closed forms of the three update kernels\<close>

lemma slice_update_apply:
  "slice_update f r d off n s r' =
     (if r' = r then map (\<lambda>i. f (s r ! i) (s d ! (off + i))) [0..<n] else s r')"
  by (simp add: slice_update_def)

lemma slice_update2_apply:
  "slice_update2 f r d off off' n s r' =
     (if r' = r then map (\<lambda>i. f (s r ! i) (s d ! (off + i)) (s d ! (off' + i))) [0..<n]
      else s r')"
  by (simp add: slice_update2_def)

lemma length_slice_update:
  "length (s r) = n \<Longrightarrow> length (slice_update f r d off n s r') = length (s r')"
  by (simp add: slice_update_apply)

lemma length_slice_update2:
  "length (s r) = n \<Longrightarrow> length (slice_update2 f r d off off' n s r') = length (s r')"
  by (simp add: slice_update2_apply)

text \<open>
  A loop that replaces element \<open>i\<close> of the array behind \<open>r\<close> by a function of it and
  of element \<open>off + i\<close> of the array behind \<open>d\<close>. The closed form holds whether or not
  \<open>d\<close> and \<open>r\<close> are the same array: if they are, the slice is the whole array,
  \<open>off\<close> is 0, and iteration \<open>i\<close> reads element \<open>i\<close> before any iteration has
  written it.
\<close>

lemma update_loop:
  assumes len: "length (s r) = n" and inb: "off + n \<le> length (s d)"
  shows "for_loop 0 n (\<lambda>i s. do {
             x \<leftarrow> array_get (s r) i;
             y \<leftarrow> array_get (s d) (off + i);
             a \<leftarrow> array_set (s r) i (f x y);
             Some (s(r := a)) }) s
         = Some (slice_update f r d off n s)"
proof -
  let ?body = "\<lambda>i s. do {
             x \<leftarrow> array_get (s r) i;
             y \<leftarrow> array_get (s d) (off + i);
             a \<leftarrow> array_set (s r) i (f x y);
             Some (s(r := a)) }"
  let ?new = "\<lambda>j. f (s r ! j) (s d ! (off + j))"
  let ?I = "\<lambda>k t. \<exists>xs. t = s(r := xs) \<and> length xs = n
              \<and> (\<forall>j<n. xs ! j = (if j < k then ?new j else s r ! j))"
  have "\<exists>s'. for_loop 0 n ?body s = Some s' \<and> ?I n s'"
  proof (rule for_loop_rule [where I = ?I])
    show "?I 0 s" using len by (intro exI [of _ "s r"]) simp
    show "0 \<le> n" by simp
  next
    fix k :: nat and t :: "nat \<Rightarrow> 'a list"
    assume k: "0 \<le> k" "k < n" and inv: "?I k t"
    then obtain xs where t: "t = s(r := xs)" and lxs: "length xs = n"
      and xs: "\<forall>j<n. xs ! j = (if j < k then ?new j else s r ! j)"
      by blast
    have rd: "t d ! (off + k) = s d ! (off + k)"
    proof (cases "d = r")
      case True
      with len inb k have "off = 0" by simp
      with True t xs k show ?thesis by simp
    next
      case False
      with t show ?thesis by simp
    qed
    have ld: "off + k < length (t d)"
      using t lxs len inb k by (cases "d = r") simp_all
    have tr: "t r = xs" using t by simp
    have xk: "xs ! k = s r ! k" using xs k by simp
    have step: "?body k t = Some (t(r := xs[k := ?new k]))"
      using k lxs ld by (simp add: array_get_def array_set_def tr rd xk)
    have "?I (Suc k) (t(r := xs[k := ?new k]))"
    proof (intro exI conjI)
      show "t(r := xs[k := ?new k]) = s(r := xs[k := ?new k])" using t by simp
      show "length (xs[k := ?new k]) = n" using lxs by simp
      show "\<forall>j<n. xs[k := ?new k] ! j = (if j < Suc k then ?new j else s r ! j)"
        using xs lxs k by (auto simp: nth_list_update less_Suc_eq)
    qed
    with step show "\<exists>t'. ?body k t = Some t' \<and> ?I (Suc k) t'" by blast
  qed
  then obtain xs where run: "for_loop 0 n ?body s = Some (s(r := xs))"
    and lxs: "length xs = n" and xs: "\<forall>j<n. xs ! j = ?new j"
    by auto
  have "xs = map ?new [0..<n]"
    using lxs xs by (intro nth_equalityI) simp_all
  with run show ?thesis by (simp add: slice_update_def)
qed

lemma AddToAll_eq:
  assumes "length (s inputA) = n" and "length (s inputB) = n"
    and "unat oA + n \<le> length (s delta)" and "unat oB + n \<le> length (s delta)"
  shows "AddToAll n inputA inputB delta oA oB s =
           Some (slice_update (+) inputB delta (unat oB) n
                  (slice_update (+) inputA delta (unat oA) n s))"
proof -
  let ?s1 = "slice_update (+) inputA delta (unat oA) n s"
  have first: "for_loop 0 n (\<lambda>i s. do {
         x \<leftarrow> array_get (s inputA) i;
         d \<leftarrow> array_get (s delta) (unat oA + i);
         a \<leftarrow> array_set (s inputA) i (x + d);
         Some (s(inputA := a)) }) s = Some ?s1"
    by (rule update_loop [where f = "(+)"]) (use assms in simp_all)
  have second: "for_loop 0 n (\<lambda>i s. do {
         x \<leftarrow> array_get (s inputB) i;
         d \<leftarrow> array_get (s delta) (unat oB + i);
         b \<leftarrow> array_set (s inputB) i (x + d);
         Some (s(inputB := b)) }) ?s1
       = Some (slice_update (+) inputB delta (unat oB) n ?s1)"
    by (rule update_loop [where f = "(+)"]) (use assms in \<open>simp_all add: length_slice_update\<close>)
  show ?thesis
    unfolding AddToAll_def first by (simp add: second)
qed

lemma SubtractFromAll_eq:
  assumes "length (s inputA) = n" and "length (s inputB) = n"
    and "unat oA + n \<le> length (s delta)" and "unat oB + n \<le> length (s delta)"
  shows "SubtractFromAll n inputA inputB delta oA oB s =
           Some (slice_update (-) inputB delta (unat oB) n
                  (slice_update (-) inputA delta (unat oA) n s))"
proof -
  let ?s1 = "slice_update (-) inputA delta (unat oA) n s"
  have first: "for_loop 0 n (\<lambda>i s. do {
         x \<leftarrow> array_get (s inputA) i;
         d \<leftarrow> array_get (s delta) (unat oA + i);
         a \<leftarrow> array_set (s inputA) i (x - d);
         Some (s(inputA := a)) }) s = Some ?s1"
    by (rule update_loop [where f = "(-)"]) (use assms in simp_all)
  have second: "for_loop 0 n (\<lambda>i s. do {
         x \<leftarrow> array_get (s inputB) i;
         d \<leftarrow> array_get (s delta) (unat oB + i);
         b \<leftarrow> array_set (s inputB) i (x - d);
         Some (s(inputB := b)) }) ?s1
       = Some (slice_update (-) inputB delta (unat oB) n ?s1)"
    by (rule update_loop [where f = "(-)"]) (use assms in \<open>simp_all add: length_slice_update\<close>)
  show ?thesis
    unfolding SubtractFromAll_def first by (simp add: second)
qed

text \<open>
  The fused loop, for two different accumulators: it computes what the loop over
  \<open>inputA\<close> followed by the loop over \<open>inputB\<close> would. The array behind
  \<open>delta\<close> may be one of the accumulators.
\<close>

lemma SubtractAndAddToAll_eq:
  fixes s :: "'a::{plus,minus} store"
  assumes ne: "inputA \<noteq> inputB"
    and lenA: "length (s inputA) = n" and lenB: "length (s inputB) = n"
    and inAS: "unat oAS + n \<le> length (s delta)" and inAA: "unat oAA + n \<le> length (s delta)"
    and inBS: "unat oBS + n \<le> length (s delta)" and inBA: "unat oBA + n \<le> length (s delta)"
  shows "SubtractAndAddToAll n inputA inputB delta oAS oAA oBS oBA s =
           Some (slice_update2 (\<lambda>x d e. x - d + e) inputB delta (unat oBS) (unat oBA) n
                  (slice_update2 (\<lambda>x d e. x - d + e) inputA delta (unat oAS) (unat oAA) n s))"
proof -
  let ?body = "\<lambda>i s. do {
         x \<leftarrow> array_get (s inputA) i;
         d \<leftarrow> array_get (s delta) (unat oAS + i);
         e \<leftarrow> array_get (s delta) (unat oAA + i);
         a \<leftarrow> array_set (s inputA) i (x - d + e);
         s' \<leftarrow> Some (s(inputA := a));
         y \<leftarrow> array_get (s' inputB) i;
         d' \<leftarrow> array_get (s' delta) (unat oBS + i);
         e' \<leftarrow> array_get (s' delta) (unat oBA + i);
         b \<leftarrow> array_set (s' inputB) i (y - d' + e');
         Some (s'(inputB := b)) }"
  let ?s1 = "slice_update2 (\<lambda>x d e. x - d + e) inputA delta (unat oAS) (unat oAA) n s"
  let ?newA = "\<lambda>j. s inputA ! j - s delta ! (unat oAS + j) + s delta ! (unat oAA + j)"
  let ?newB = "\<lambda>j. s inputB ! j - ?s1 delta ! (unat oBS + j) + ?s1 delta ! (unat oBA + j)"
  let ?I = "\<lambda>k t. \<exists>xs ys. t = s(inputA := xs, inputB := ys) \<and> length xs = n \<and> length ys = n
              \<and> (\<forall>j<n. xs ! j = (if j < k then ?newA j else s inputA ! j))
              \<and> (\<forall>j<n. ys ! j = (if j < k then ?newB j else s inputB ! j))"
  have "\<exists>s'. for_loop 0 n ?body s = Some s' \<and> ?I n s'"
  proof (rule for_loop_rule [where I = ?I])
    show "?I 0 s"
      using lenA lenB by (intro exI [of _ "s inputA"] exI [of _ "s inputB"]) simp
    show "0 \<le> n" by simp
  next
    fix k :: nat and t :: "nat \<Rightarrow> 'a list"
    assume k: "0 \<le> k" "k < n" and inv: "?I k t"
    then obtain xs ys where t: "t = s(inputA := xs, inputB := ys)"
      and lxs: "length xs = n" and lys: "length ys = n"
      and xs: "\<forall>j<n. xs ! j = (if j < k then ?newA j else s inputA ! j)"
      and ys: "\<forall>j<n. ys ! j = (if j < k then ?newB j else s inputB ! j)"
      by blast
    have tA: "t inputA = xs" and tB: "t inputB = ys" using t ne by simp_all
    have xk: "xs ! k = s inputA ! k" and yk: "ys ! k = s inputB ! k" using xs ys k by simp_all
    have lD: "length (t delta) = length (s delta)"
      using t lxs lys lenA lenB by simp
    \<comment> \<open>the reads of \<open>delta\<close> in the first statement see the initial values\<close>
    have rdA: "t delta ! (unat off + k) = s delta ! (unat off + k)"
      if "unat off + n \<le> length (s delta)" for off :: "32 word"
    proof -
      consider "delta = inputB" | "delta = inputA" | "delta \<noteq> inputA" "delta \<noteq> inputB" by blast
      then show ?thesis
      proof cases
        case 1
        with that lenB have "unat off = 0" by simp
        with 1 tB yk show ?thesis by simp
      next
        case 2
        with that lenA have "unat off = 0" by simp
        with 2 tA xk show ?thesis by simp
      next
        case 3
        with t show ?thesis by simp
      qed
    qed
    let ?t' = "t(inputA := xs[k := ?newA k])"
    have t'B: "?t' inputB = ys" using tB ne by simp
    have lD': "length (?t' delta) = length (s delta)"
      using lD lxs lenA by simp
    \<comment> \<open>the reads of \<open>delta\<close> in the second statement see the first statement's write\<close>
    have rdB: "?t' delta ! (unat off + k) = ?s1 delta ! (unat off + k)"
      if "unat off + n \<le> length (s delta)" for off :: "32 word"
    proof -
      consider "delta = inputA" | "delta = inputB" "delta \<noteq> inputA"
        | "delta \<noteq> inputA" "delta \<noteq> inputB" by blast
      then show ?thesis
      proof cases
        case 1
        with that lenA have "unat off = 0" by simp
        with 1 k lxs show ?thesis by (simp add: slice_update2_apply)
      next
        case 2
        with that lenB have "unat off = 0" by simp
        with 2 tB yk show ?thesis by (simp add: slice_update2_apply)
      next
        case 3
        with t show ?thesis by (simp add: slice_update2_apply)
      qed
    qed
    have g1: "array_get (t inputA) k = Some (s inputA ! k)"
      using k lxs by (simp add: array_get_def tA xk)
    have g2: "array_get (t delta) (unat off + k) = Some (s delta ! (unat off + k))"
      if "unat off + n \<le> length (s delta)" for off :: "32 word"
      using that k by (simp add: array_get_def lD rdA [OF that])
    have w1: "array_set (t inputA) k v = Some (xs[k := v])" for v
      using k lxs by (simp add: array_set_def tA)
    have g3: "array_get (?t' inputB) k = Some (s inputB ! k)"
      using k lys by (simp only: array_get_def t'B yk) simp
    have g4: "array_get (?t' delta) (unat off + k) = Some (?s1 delta ! (unat off + k))"
      if "unat off + n \<le> length (s delta)" for off :: "32 word"
      using that k by (simp only: array_get_def lD' rdB [OF that]) simp
    have w2: "array_set (?t' inputB) k v = Some (ys[k := v])" for v
      using k lys by (simp only: array_set_def t'B) simp
    have step: "?body k t = Some (?t'(inputB := ys[k := ?newB k]))"
      by (simp only: g1 g2 [OF inAS] g2 [OF inAA] w1 g3 g4 [OF inBS] g4 [OF inBA] w2
          Option.bind.simps)
    have "?I (Suc k) (?t'(inputB := ys[k := ?newB k]))"
    proof (intro exI conjI)
      show "?t'(inputB := ys[k := ?newB k])
              = s(inputA := xs[k := ?newA k], inputB := ys[k := ?newB k])"
        using t by simp
      show "length (xs[k := ?newA k]) = n" "length (ys[k := ?newB k]) = n"
        using lxs lys by simp_all
      show "\<forall>j<n. xs[k := ?newA k] ! j = (if j < Suc k then ?newA j else s inputA ! j)"
        using xs lxs k by (auto simp: nth_list_update less_Suc_eq)
      show "\<forall>j<n. ys[k := ?newB k] ! j = (if j < Suc k then ?newB j else s inputB ! j)"
        using ys lys k by (auto simp: nth_list_update less_Suc_eq)
    qed
    with step show "\<exists>t'. ?body k t = Some t' \<and> ?I (Suc k) t'" by blast
  qed
  then obtain xs ys where run: "for_loop 0 n ?body s = Some (s(inputA := xs, inputB := ys))"
    and lxs: "length xs = n" and lys: "length ys = n"
    and xs: "\<forall>j<n. xs ! j = ?newA j" and ys: "\<forall>j<n. ys ! j = ?newB j"
    by auto
  have "xs = map ?newA [0..<n]" using lxs xs by (intro nth_equalityI) simp_all
  moreover have "ys = map ?newB [0..<n]" using lys ys by (intro nth_equalityI) simp_all
  moreover have "s(inputA := map ?newA [0..<n], inputB := map ?newB [0..<n])
      = slice_update2 (\<lambda>x d e. x - d + e) inputB delta (unat oBS) (unat oBA) n ?s1"
    using ne by (simp add: slice_update2_def)
  ultimately show ?thesis
    unfolding SubtractAndAddToAll_def using run by simp
qed

text \<open>
  With all-zero slices every iteration writes back the value it read, whatever the
  aliasing.
\<close>

lemma AddToAll_zero_slices:
  fixes s :: "'a::monoid_add store"
  assumes len: "length (s inputA) = n" "length (s inputB) = n"
    and inb: "unat oA + n \<le> length (s delta)" "unat oB + n \<le> length (s delta)"
    and zero: "\<forall>i<n. s delta ! (unat oA + i) = 0 \<and> s delta ! (unat oB + i) = 0"
  shows "AddToAll n inputA inputB delta oA oB s = Some s"
proof -
  have first: "for_loop 0 n (\<lambda>i s. do {
         x \<leftarrow> array_get (s inputA) i;
         d \<leftarrow> array_get (s delta) (unat oA + i);
         a \<leftarrow> array_set (s inputA) i (x + d);
         Some (s(inputA := a)) }) s = Some s"
    by (rule for_loop_unchanged) (use len inb zero in \<open>simp add: array_get_def array_set_def\<close>)
  have second: "for_loop 0 n (\<lambda>i s. do {
         x \<leftarrow> array_get (s inputB) i;
         d \<leftarrow> array_get (s delta) (unat oB + i);
         b \<leftarrow> array_set (s inputB) i (x + d);
         Some (s(inputB := b)) }) s = Some s"
    by (rule for_loop_unchanged) (use len inb zero in \<open>simp add: array_get_def array_set_def\<close>)
  show ?thesis unfolding AddToAll_def first by (simp add: second)
qed

lemma SubtractFromAll_zero_slices:
  fixes s :: "'a::group_add store"
  assumes len: "length (s inputA) = n" "length (s inputB) = n"
    and inb: "unat oA + n \<le> length (s delta)" "unat oB + n \<le> length (s delta)"
    and zero: "\<forall>i<n. s delta ! (unat oA + i) = 0 \<and> s delta ! (unat oB + i) = 0"
  shows "SubtractFromAll n inputA inputB delta oA oB s = Some s"
proof -
  have first: "for_loop 0 n (\<lambda>i s. do {
         x \<leftarrow> array_get (s inputA) i;
         d \<leftarrow> array_get (s delta) (unat oA + i);
         a \<leftarrow> array_set (s inputA) i (x - d);
         Some (s(inputA := a)) }) s = Some s"
    by (rule for_loop_unchanged) (use len inb zero in \<open>simp add: array_get_def array_set_def\<close>)
  have second: "for_loop 0 n (\<lambda>i s. do {
         x \<leftarrow> array_get (s inputB) i;
         d \<leftarrow> array_get (s delta) (unat oB + i);
         b \<leftarrow> array_set (s inputB) i (x - d);
         Some (s(inputB := b)) }) s = Some s"
    by (rule for_loop_unchanged) (use len inb zero in \<open>simp add: array_get_def array_set_def\<close>)
  show ?thesis unfolding SubtractFromAll_def first by (simp add: second)
qed

subsection \<open>Closed form of the forward pass\<close>

text \<open>
  The inner loop accumulates, from 0 and from left to right, the products of the two
  activated inputs with the weight block that starts at \<open>stride\<close>; no law of the
  addition of \<open>OT\<close> is used. In an additive monoid the result is the sum of the
  summands.
\<close>

lemma dot_loop:
  fixes times_T :: "'a \<Rightarrow> 'a \<Rightarrow> 'b::{zero,plus}"
  assumes lenA: "InputSize \<le> length inputA" and lenB: "InputSize \<le> length inputB"
    and lenW: "stride + InputSize * 2 \<le> length weight"
  shows "for_loop 0 InputSize (\<lambda>j sum. do {
             a \<leftarrow> array_get inputA j;
             w \<leftarrow> array_get weight (stride + j);
             sum' \<leftarrow> Some (sum + times_T (Activate a) w);
             b \<leftarrow> array_get inputB j;
             w' \<leftarrow> array_get weight (InputSize + stride + j);
             Some (sum' + times_T (Activate b) w') }) 0
         = Some (foldl (\<lambda>acc j. acc + times_T (Activate (inputA ! j)) (weight ! (stride + j))
                                   + times_T (Activate (inputB ! j))
                                       (weight ! (InputSize + stride + j)))
                   0 [0..<InputSize])"
proof -
  let ?body = "\<lambda>j sum. do {
             a \<leftarrow> array_get inputA j;
             w \<leftarrow> array_get weight (stride + j);
             sum' \<leftarrow> Some (sum + times_T (Activate a) w);
             b \<leftarrow> array_get inputB j;
             w' \<leftarrow> array_get weight (InputSize + stride + j);
             Some (sum' + times_T (Activate b) w') }"
  let ?step = "\<lambda>(acc :: 'b) j. acc + times_T (Activate (inputA ! j)) (weight ! (stride + j))
                 + times_T (Activate (inputB ! j)) (weight ! (InputSize + stride + j))"
  let ?I = "\<lambda>k (s :: 'b). s = foldl ?step 0 [0..<k]"
  have "\<exists>s'. for_loop 0 InputSize ?body 0 = Some s' \<and> ?I InputSize s'"
  proof (rule for_loop_rule [where I = ?I])
    show "?I 0 0" by simp
    show "0 \<le> InputSize" by simp
  next
    fix k :: nat and t :: 'b
    assume k: "0 \<le> k" "k < InputSize" and inv: "?I k t"
    have "?body k t = Some (?step t k)"
      using k lenA lenB lenW by (simp add: array_get_def)
    moreover have "?I (Suc k) (?step t k)"
      using inv by simp
    ultimately show "\<exists>t'. ?body k t = Some t' \<and> ?I (Suc k) t'" by blast
  qed
  then show ?thesis by auto
qed

text \<open>Block \<open>k\<close> of the weights lies inside an array of \<open>OutputSize\<close> blocks.\<close>

lemma block_bound:
  fixes k OutputSize InputSize :: nat
  shows "k < OutputSize \<Longrightarrow> k * (InputSize * 2) + InputSize * 2 \<le> InputSize * 2 * OutputSize"
proof -
  assume "k < OutputSize"
  then have "Suc k * (InputSize * 2) \<le> OutputSize * (InputSize * 2)"
    by (intro mult_le_mono1) simp
  then show ?thesis by (simp add: mult.commute)
qed

text \<open>
  The outer loop: after \<open>k\<close> iterations \<open>stride\<close> is \<open>k * (InputSize * 2)\<close>,
  the positions \<open>off, ..., off + k - 1\<close> of the output hold their final values, the other
  positions are as before, and the record of accesses lists the \<open>k\<close> iterations.
\<close>

lemma forward_closed:
  fixes times_T :: "'a \<Rightarrow> 'a \<Rightarrow> 'b::{zero,plus}"
  assumes lenA: "length inputA = InputSize" and lenB: "length inputB = InputSize"
    and lenW: "length weight = InputSize * 2 * OutputSize"
    and inB: "unat off + OutputSize \<le> length bias"
    and inO: "unat off + OutputSize \<le> length output"
  shows "ActivateFlattenAndForward_traced Activate times_T to_OT InputSize OutputSize
           inputA inputB weight bias output off =
         Some (map (\<lambda>m. if unat off \<le> m \<and> m < unat off + OutputSize
                         then foldl (\<lambda>acc j. acc
                                + times_T (Activate (inputA ! j))
                                     (weight ! ((m - unat off) * (InputSize * 2) + j))
                                + times_T (Activate (inputB ! j))
                                     (weight ! (InputSize + (m - unat off) * (InputSize * 2) + j)))
                                0 [0..<InputSize]
                              + to_OT (bias ! m)
                         else output ! m) [0..<length output],
               concat (map (\<lambda>i. [BiasRead (unat off + i), OutputWrite (unat off + i)])
                        [0..<OutputSize]))"
proof -
  let ?dot = "\<lambda>stride. foldl (\<lambda>acc j. acc
                + times_T (Activate (inputA ! j)) (weight ! (stride + j))
                + times_T (Activate (inputB ! j)) (weight ! (InputSize + stride + j)))
                (0 :: 'b) [0..<InputSize]"
  let ?inner = "\<lambda>stride. for_loop 0 InputSize (\<lambda>j sum. do {
             a \<leftarrow> array_get inputA j;
             w \<leftarrow> array_get weight (stride + j);
             sum' \<leftarrow> Some (sum + times_T (Activate a) w);
             b \<leftarrow> array_get inputB j;
             w' \<leftarrow> array_get weight (InputSize + stride + j);
             Some (sum' + times_T (Activate b) w') }) (0 :: 'b)"
  let ?body = "\<lambda>i (stride, out, log). do {
         sum \<leftarrow> ?inner stride;
         bv \<leftarrow> array_get bias (unat off + i);
         out' \<leftarrow> array_set out (unat off + i) (sum + to_OT bv);
         Some (stride + InputSize * 2, out',
               log @ [BiasRead (unat off + i), OutputWrite (unat off + i)]) }"
  let ?val = "\<lambda>m. ?dot ((m - unat off) * (InputSize * 2)) + to_OT (bias ! m)"
  let ?log = "\<lambda>k. concat (map (\<lambda>i. [BiasRead (unat off + i), OutputWrite (unat off + i)]) [0..<k])"
  let ?I = "\<lambda>k (stride, out, log). stride = k * (InputSize * 2)
      \<and> length out = length output
      \<and> (\<forall>m<length output. out ! m = (if unat off \<le> m \<and> m < unat off + k then ?val m else output ! m))
      \<and> log = ?log k"
  have "\<exists>s'. for_loop 0 OutputSize ?body (0, output, []) = Some s' \<and> ?I OutputSize s'"
  proof (rule for_loop_rule [where I = ?I])
    show "?I 0 (0, output, [])" by auto
    show "0 \<le> OutputSize" by simp
  next
    fix k t assume k: "0 \<le> k" "k < OutputSize" and inv: "?I k t"
    obtain stride out log where t: "t = (stride, out, log)" by (cases t)
    from inv have stride: "stride = k * (InputSize * 2)" and lenout: "length out = length output"
      and log: "log = ?log k"
      and outv: "\<forall>m<length output. out ! m = (if unat off \<le> m \<and> m < unat off + k then ?val m else output ! m)"
      unfolding t by simp_all
    have "stride + InputSize * 2 \<le> length weight"
      unfolding stride lenW by (rule block_bound [OF k(2)])
    then have inner: "?inner stride = Some (?dot stride)"
      by (intro dot_loop) (simp_all add: lenA lenB)
    let ?out' = "out[unat off + k := ?dot stride + to_OT (bias ! (unat off + k))]"
    have step: "?body k t = Some (stride + InputSize * 2, ?out',
        log @ [BiasRead (unat off + k), OutputWrite (unat off + k)])"
      unfolding t using k inB inO lenout
      by (simp only: prod.case inner; simp add: array_get_def array_set_def)
    have "?out' ! m = (if unat off \<le> m \<and> m < unat off + Suc k then ?val m else output ! m)"
      if m: "m < length output" for m
    proof (cases "m = unat off + k")
      case True
      with m lenout show ?thesis by (simp add: stride)
    next
      case False
      then have "(m < unat off + Suc k) = (m < unat off + k)" by auto
      with False outv m show ?thesis by simp
    qed
    then have "?I (Suc k) (stride + InputSize * 2, ?out',
        log @ [BiasRead (unat off + k), OutputWrite (unat off + k)])"
      using lenout by (simp add: stride log)
    with step show "\<exists>t'. ?body k t = Some t' \<and> ?I (Suc k) t'" by blast
  qed
  then obtain stride out log
    where run: "for_loop 0 OutputSize ?body (0, output, []) = Some (stride, out, log)"
      and fin: "?I OutputSize (stride, out, log)"
    by auto
  from fin have "out = map (\<lambda>m. if unat off \<le> m \<and> m < unat off + OutputSize then ?val m else output ! m)
       [0..<length output]"
    by (intro nth_equalityI) simp_all
  moreover from fin have "log = ?log OutputSize" by simp
  ultimately show ?thesis
    unfolding ActivateFlattenAndForward_traced_def run by simp
qed

lemma accumulate_sum_list:
  fixes f g :: "nat \<Rightarrow> 'b::monoid_add"
  shows "foldl (\<lambda>acc j. acc + f j + g j) a [0..<n] = a + sum_list (map (\<lambda>j. f j + g j) [0..<n])"
  by (induction n) (simp_all add: add.assoc)

subsection \<open>Auxiliary facts\<close>

lemma list2_eqI: "length xs = 2 \<Longrightarrow> xs ! 0 = a \<Longrightarrow> xs ! 1 = b \<Longrightarrow> xs = [a, b]"
  by (cases xs; cases "tl xs") simp_all

lemma all_less_two: "(\<forall>i<2::nat. P i) \<longleftrightarrow> P 0 \<and> P 1"
  by (auto simp: less_2_cases_iff)


lemma map_upt_nth_id:
  "length xs = n \<Longrightarrow> (\<And>i. i < n \<Longrightarrow> f i = xs ! i) \<Longrightarrow> map f [0..<n] = xs"
  by (auto intro!: nth_equalityI)

text \<open>The equations that evaluate the update kernels on concrete stores.\<close>

lemmas update_kernel_eval =
  AddToAll_def SubtractFromAll_def SubtractAndAddToAll_def
  for_loop.simps array_get_def array_set_def store_of_def fetch_def

text \<open>The roundings that the concrete \<open>binary32\<close> calls below perform.\<close>

lemma binary32_roundings:
  "round_to_binary32 0 = 0"
  "round_to_binary32 1 = 1"
  "round_to_binary32 2 = 2"
  "round_to_binary32 33554436 = 33554436"
  "round_to_binary32 33554437 = 33554436"
  "round_to_binary32 33554438 = 33554440"
  "round_to_binary32 33554440 = 33554440"
  "round_to_binary32 67108872 = 67108872"
  "round_to_binary32 67108876 = 67108880"
  by code_simp+

text \<open>
  How often a position occurs in the record of accesses of \<open>n\<close> iterations from
  position \<open>b\<close>.
\<close>

lemma count_accesses:
  "count_list (concat (map (\<lambda>i. [BiasRead (b + i), OutputWrite (b + i)]) [0..<n])) (OutputWrite k)
     = (if b \<le> k \<and> k < b + n then 1 else 0)"
  "count_list (concat (map (\<lambda>i. [BiasRead (b + i), OutputWrite (b + i)]) [0..<n])) (BiasRead k)
     = (if b \<le> k \<and> k < b + n then 1 else 0)"
  by (induction n) auto

subsection \<open>The forward pass over a store\<close>

text \<open>
  The closed form of the forward pass embedded over a store, when \<open>output\<close> is not one of
  \<open>inputA\<close>, \<open>inputB\<close> and \<open>weight\<close>. It may be \<open>bias\<close>: each \<open>bias[o + i]\<close>
  is read before \<open>output[o + i]\<close> is written.
\<close>

lemma forward_shared_closed:
  fixes s :: "'a::{zero,plus} store"
  assumes lenA: "length (s inputA) = InputSize" and lenB: "length (s inputB) = InputSize"
    and lenW: "length (s weight) = InputSize * 2 * OutputSize"
    and inB: "unat off + OutputSize \<le> length (s bias)"
    and inO: "unat off + OutputSize \<le> length (s output)"
    and distinct: "output \<noteq> inputA" "output \<noteq> inputB" "output \<noteq> weight"
  shows "ActivateFlattenAndForward_shared Activate times_T to_OT InputSize OutputSize
           inputA inputB weight bias output off s =
         Some (s(output := map (\<lambda>m. if unat off \<le> m \<and> m < unat off + OutputSize
                         then foldl (\<lambda>acc j. acc
                                + times_T (Activate (s inputA ! j))
                                     (s weight ! ((m - unat off) * (InputSize * 2) + j))
                                + times_T (Activate (s inputB ! j))
                                     (s weight ! (InputSize + (m - unat off) * (InputSize * 2) + j)))
                                0 [0..<InputSize]
                              + to_OT (s bias ! m)
                         else s output ! m) [0..<length (s output)]))"
proof -
  let ?dot = "\<lambda>stride. foldl (\<lambda>acc j. acc
                + times_T (Activate (s inputA ! j)) (s weight ! (stride + j))
                + times_T (Activate (s inputB ! j)) (s weight ! (InputSize + stride + j)))
                (0 :: 'a) [0..<InputSize]"
  let ?inner = "\<lambda>stride (t :: 'a store). for_loop 0 InputSize (\<lambda>j sum. do {
             a \<leftarrow> array_get (t inputA) j;
             w \<leftarrow> array_get (t weight) (stride + j);
             sum' \<leftarrow> Some (sum + times_T (Activate a) w);
             b \<leftarrow> array_get (t inputB) j;
             w' \<leftarrow> array_get (t weight) (InputSize + stride + j);
             Some (sum' + times_T (Activate b) w') }) (0 :: 'a)"
  let ?body = "\<lambda>i (stride, t). do {
         sum \<leftarrow> ?inner stride t;
         bv \<leftarrow> array_get (t bias) (unat off + i);
         out' \<leftarrow> array_set (t output) (unat off + i) (sum + to_OT bv);
         Some (stride + InputSize * 2, t(output := out')) }"
  let ?val = "\<lambda>m. ?dot ((m - unat off) * (InputSize * 2)) + to_OT (s bias ! m)"
  let ?out = "\<lambda>k. map (\<lambda>m. if unat off \<le> m \<and> m < unat off + k then ?val m else s output ! m)
                 [0..<length (s output)]"
  let ?I = "\<lambda>k (stride, t). stride = k * (InputSize * 2) \<and> t = s(output := ?out k)"
  have out0: "?out 0 = s output"
    by (rule map_upt_nth_id) auto
  have "\<exists>s'. for_loop 0 OutputSize ?body (0, s) = Some s' \<and> ?I OutputSize s'"
  proof (rule for_loop_rule [where I = ?I])
    show "?I 0 (0, s)" using out0 by simp
    show "0 \<le> OutputSize" by simp
  next
    fix k :: nat and st :: "nat \<times> 'a store"
    assume k: "0 \<le> k" "k < OutputSize" and inv: "?I k st"
    obtain stride t where st: "st = (stride, t)" by (cases st)
    from inv have stride: "stride = k * (InputSize * 2)" and t: "t = s(output := ?out k)"
      unfolding st by simp_all
    have tA: "t inputA = s inputA" and tB: "t inputB = s inputB" and tW: "t weight = s weight"
      using t distinct by simp_all
    have tO: "t output = ?out k" using t by simp
    have "stride + InputSize * 2 \<le> length (s weight)"
      unfolding stride lenW by (rule block_bound [OF k(2)])
    then have inner: "?inner stride t = Some (?dot stride)"
      unfolding tA tB tW by (intro dot_loop) (simp_all add: lenA lenB)
    have pos: "unat off + k < length (s output)" "unat off + k < length (s bias)"
      using k inO inB by simp_all
    have rb: "array_get (t bias) (unat off + k) = Some (s bias ! (unat off + k))"
    proof (cases "bias = output")
      case True
      with tO pos show ?thesis by (simp add: array_get_def)
    next
      case False
      with t pos show ?thesis by (simp add: array_get_def)
    qed
    have wo: "array_set (t output) (unat off + k) v = Some ((?out k)[unat off + k := v])" for v
      using pos by (simp add: array_set_def tO)
    have next_out: "(?out k)[unat off + k := ?dot stride + to_OT (s bias ! (unat off + k))]
        = ?out (Suc k)"
      using pos by (intro nth_equalityI) (auto simp: nth_list_update stride)
    have step: "?body k st = Some (stride + InputSize * 2, s(output := ?out (Suc k)))"
      unfolding st
      apply (simp only: prod.case)
      apply (simp only: inner)
      apply (simp only: Option.bind.simps rb)
      apply (simp only: Option.bind.simps wo next_out)
      apply (simp add: t)
      done
    have "?I (Suc k) (stride + InputSize * 2, s(output := ?out (Suc k)))"
      by (simp add: stride)
    with step show "\<exists>t'. ?body k st = Some t' \<and> ?I (Suc k) t'" by blast
  qed
  then obtain stride t where run: "for_loop 0 OutputSize ?body (0, s) = Some (stride, t)"
    and fin: "t = s(output := ?out OutputSize)"
    by auto
  show ?thesis
    unfolding ActivateFlattenAndForward_shared_def run by (simp add: fin)
qed

text \<open>The equations that evaluate the forward pass on concrete arrays.\<close>

lemmas forward_eval =
  ActivateFlattenAndForward_def ActivateFlattenAndForward_traced_def
  for_loop.simps array_get_def array_set_def times_int16_def int16_to_int32_def

lemmas forward_shared_eval =
  ActivateFlattenAndForward_shared_def for_loop.simps array_get_def array_set_def
  store_of_def fetch_def

section \<open>The claims\<close>

subsection \<open>C1: the value stored for each output neuron\<close>

text \<open>
  Claim C1 says that for every offset \<open>o\<close> and every \<open>i < OutputSize\<close> the kernel
  stores at \<open>output[o + i]\<close> the bias \<open>bias[o + i]\<close> plus the dot product of the
  activated inputs with weight block \<open>i\<close>. The signature gives \<open>bias\<close> and
  \<open>output\<close> exactly \<open>OutputSize\<close> elements, so for \<open>o > 0\<close> the last of these
  positions do not exist. With arguments of the shapes of the signature,
  \<open>OutputSize = 2\<close> and \<open>o = 1\<close>, the iteration \<open>i = 1\<close> reads \<open>bias[2]\<close>,
  which is out of range, and nothing is stored at \<open>output[2]\<close>.

  The claim is also for every \<open>T\<close> and \<open>OT\<close>, and it does not say that \<open>output\<close> is
  an array of its own. With \<open>T = OT = int16_t\<close>, \<open>InputSize = OutputSize = 2\<close>,
  \<open>o = 0\<close>, \<open>inputA = [1, 2]\<close>, \<open>inputB = [3, 4]\<close>, all weights one,
  \<open>bias = [5, 6]\<close> and \<open>inputA\<close> passed as \<open>output\<close> too, neuron 0 stores 15 at
  \<open>inputA[0]\<close>, which neuron 1 then reads: the kernel stores \<open>15 + 2 + 3 + 4 + 6 = 30\<close>
  at \<open>output[1]\<close>, where the claim has \<open>1 + 2 + 3 + 4 + 6 = 16\<close>.
\<close>

theorem forward_offset_counterexample:
  "forward_shapes 2 2 [1, 2 :: 16 word] [3, 4] [1, 1, 1, 1, 2, 2, 2, 2] [5, 6] [0, 0 :: 32 word]
   \<and> \<not> unat (1 :: 32 word) + 2 \<le> length [0, 0 :: 32 word]
   \<and> ActivateFlattenAndForward id times_int16 int16_to_int32 2 2
        [1, 2] [3, 4] [1, 1, 1, 1, 2, 2, 2, 2] [5, 6] [0, 0] 1 = None
   \<and> map_option (fetch [0, 1, 2, 3])
        (ActivateFlattenAndForward_shared id (*) id 2 2 0 1 2 3 0 0
           (store_of [[1, 2], [3, 4], [1, 1, 1, 1, 1, 1, 1, 1], [5, 6 :: 16 word]]))
       = Some [[15, 30], [3, 4], [1, 1, 1, 1, 1, 1, 1, 1], [5, 6]]
   \<and> (30 :: 16 word) \<noteq> 1 + 2 + 3 + 4 + 6"
  by (simp add: forward_shapes_def forward_eval forward_shared_eval)

text \<open>
  Claim C1 as amended. For arguments of the shapes of the signature, \<open>output\<close> not
  being the array \<open>inputA\<close> or \<open>inputB\<close>, every activation
  function, every offset \<open>o\<close> (\<open>off\<close>) that keeps the positions
  \<open>o, ..., o + OutputSize - 1\<close> inside \<open>bias\<close> and \<open>output\<close> (this is \<open>o = 0\<close>,
  unless \<open>OutputSize = 0\<close>) and every \<open>i < OutputSize\<close>, the call succeeds and stores
  at \<open>output[o + i]\<close> the value \<open>acc + bias[o + i]\<close>, where \<open>acc\<close> is accumulated in
  \<open>OT\<close> from 0, for \<open>j = 0, ..., InputSize - 1\<close> in this order, by adding first
  \<open>Activate(inputA[j]) * weight[i*2*InputSize + j]\<close> and then
  \<open>Activate(inputB[j]) * weight[i*2*InputSize + InputSize + j]\<close>. The accumulation type
  is any type with \<open>0\<close> and \<open>+\<close>; no law of its addition is used. (In an additive
  monoid, such as every \<open>'a word\<close>, \<open>acc\<close> is the sum over \<open>j\<close> of the two products,
  by \<open>accumulate_sum_list\<close>.)

  The first conjunct is the statement on array values, for every \<open>T\<close> and \<open>OT\<close>. The
  second is the statement over a store, for \<open>OT = T\<close> (the primed variables): the arrays
  are those of the store before the call, \<open>output\<close> may be the array \<open>bias\<close>, and
  every array but \<open>output\<close> is left as it was. The third is the instance of the
  specification, with \<open>T = int16_t\<close> and \<open>OT = int32_t\<close>: \<open>InputSize = 2\<close>,
  \<open>OutputSize = 1\<close>, \<open>inputA = [1, 2]\<close>, \<open>inputB = [3, 4]\<close>, the identity
  activation, all weights one, \<open>bias = [5]\<close> and \<open>o = 0\<close> give \<open>output[0] = 15\<close>.
\<close>

theorem ActivateFlattenAndForward_output:
  fixes times_T :: "'a \<Rightarrow> 'a \<Rightarrow> 'b::{zero,plus}"
    and times_T' :: "'c \<Rightarrow> 'c \<Rightarrow> 'c::{zero,plus}"
    and s :: "'c store"
  assumes shapes: "forward_shapes InputSize OutputSize inputA inputB weight bias output"
    and inB: "unat off + OutputSize \<le> length bias"
    and inO: "unat off + OutputSize \<le> length output"
    and shapes': "forward_shapes InputSize' OutputSize'
                    (s inputA') (s inputB') (s weight') (s bias') (s output')"
    and inB': "unat off' + OutputSize' \<le> length (s bias')"
    and inO': "unat off' + OutputSize' \<le> length (s output')"
    and separate: "output' \<noteq> inputA'" "output' \<noteq> inputB'"
  shows "(\<exists>out. ActivateFlattenAndForward Activate times_T to_OT InputSize OutputSize
                  inputA inputB weight bias output off = Some out
            \<and> length out = length output
            \<and> (\<forall>i<OutputSize. out ! (unat off + i) =
                  foldl (\<lambda>acc j. acc
                      + times_T (Activate (inputA ! j)) (weight ! (i * 2 * InputSize + j))
                      + times_T (Activate (inputB ! j)) (weight ! (i * 2 * InputSize + InputSize + j)))
                    0 [0..<InputSize]
                  + to_OT (bias ! (unat off + i))))
       \<and> (\<exists>s'. ActivateFlattenAndForward_shared Activate' times_T' to_OT' InputSize' OutputSize'
                  inputA' inputB' weight' bias' output' off' s = Some s'
            \<and> (\<forall>r. r \<noteq> output' \<longrightarrow> s' r = s r)
            \<and> length (s' output') = length (s output')
            \<and> (\<forall>i<OutputSize'. s' output' ! (unat off' + i) =
                  foldl (\<lambda>acc j. acc
                      + times_T' (Activate' (s inputA' ! j))
                          (s weight' ! (i * 2 * InputSize' + j))
                      + times_T' (Activate' (s inputB' ! j))
                          (s weight' ! (i * 2 * InputSize' + InputSize' + j)))
                    0 [0..<InputSize']
                  + to_OT' (s bias' ! (unat off' + i))))
       \<and> ActivateFlattenAndForward (\<lambda>x. x) times_int16 int16_to_int32 2 1
            [1, 2] [3, 4] [1, 1, 1, 1] [5] [0] 0 = Some [15]"
proof (intro conjI)
  from shapes have lenA: "length inputA = InputSize" and lenB: "length inputB = InputSize"
    and lenW: "length weight = InputSize * 2 * OutputSize"
    by (simp_all add: forward_shapes_def)
  have idx: "i * (InputSize * 2) + j = i * 2 * InputSize + j"
    "InputSize + i * (InputSize * 2) + j = i * 2 * InputSize + InputSize + j" for i j
    by (simp_all add: mult.assoc mult.commute)
  show "\<exists>out. ActivateFlattenAndForward Activate times_T to_OT InputSize OutputSize
                  inputA inputB weight bias output off = Some out
            \<and> length out = length output
            \<and> (\<forall>i<OutputSize. out ! (unat off + i) =
                  foldl (\<lambda>acc j. acc
                      + times_T (Activate (inputA ! j)) (weight ! (i * 2 * InputSize + j))
                      + times_T (Activate (inputB ! j)) (weight ! (i * 2 * InputSize + InputSize + j)))
                    0 [0..<InputSize]
                  + to_OT (bias ! (unat off + i)))"
    unfolding ActivateFlattenAndForward_def forward_closed [OF lenA lenB lenW inB inO]
    using inO by (simp add: idx)
next
  let ?run = "ActivateFlattenAndForward_shared Activate' times_T' to_OT' InputSize' OutputSize'
                  inputA' inputB' weight' bias' output' off' s"
  let ?P = "\<lambda>s'. (\<forall>r. r \<noteq> output' \<longrightarrow> s' r = s r)
            \<and> length (s' output') = length (s output')
            \<and> (\<forall>i<OutputSize'. s' output' ! (unat off' + i) =
                  foldl (\<lambda>acc j. acc
                      + times_T' (Activate' (s inputA' ! j))
                          (s weight' ! (i * 2 * InputSize' + j))
                      + times_T' (Activate' (s inputB' ! j))
                          (s weight' ! (i * 2 * InputSize' + InputSize' + j)))
                    0 [0..<InputSize']
                  + to_OT' (s bias' ! (unat off' + i)))"
  from shapes' have lenA: "length (s inputA') = InputSize'"
    and lenB: "length (s inputB') = InputSize'"
    and lenW: "length (s weight') = InputSize' * 2 * OutputSize'"
    and lenO: "length (s output') = OutputSize'"
    by (simp_all add: forward_shapes_def)
  have idx: "i * (InputSize' * 2) + j = i * 2 * InputSize' + j"
    "InputSize' + i * (InputSize' * 2) + j = i * 2 * InputSize' + InputSize' + j" for i j
    by (simp_all add: mult.assoc mult.commute)
  show "\<exists>s'. ?run = Some s' \<and> ?P s'"
  proof (cases "OutputSize' = 0")
    case True
    then have "?run = Some s"
      by (simp add: ActivateFlattenAndForward_shared_def for_loop.simps)
    moreover from True have "?P s" by simp
    ultimately show ?thesis by blast
  next
    case False
    have "output' \<noteq> weight'"
    proof
      assume "output' = weight'"
      with lenW lenO have "InputSize' * 2 * OutputSize' = OutputSize'" by simp
      with False have "InputSize' * 2 = 1" by simp
      then show False by presburger
    qed
    note run = forward_shared_closed [OF lenA lenB lenW inB' inO' separate this]
    have "?P (the ?run)"
      unfolding run using inO' by (simp add: idx)
    with run show ?thesis by simp
  qed
next
  show "ActivateFlattenAndForward (\<lambda>x. x) times_int16 int16_to_int32 2 1
            [1, 2] [3, 4] [1, 1, 1, 1] [5] [0] 0 = Some [15]"
    by (simp add: forward_eval)
qed

text \<open>
  The witness: two neurons on arrays of \<open>int16_t\<close> with \<open>int32_t\<close> output, and the same
  call with \<open>OT = T = int16_t\<close> where the array \<open>bias\<close> is passed as \<open>output\<close>.
\<close>

theorem ActivateFlattenAndForward_output_witness:
  "forward_shapes 2 2 [1, 2 :: 16 word] [3, 4] [1, 1, 1, 1, 2, 2, 2, 2] [5, 6] [0, 0 :: 32 word]
   \<and> unat (0 :: 32 word) + 2 \<le> length [5, 6 :: 16 word]
   \<and> unat (0 :: 32 word) + 2 \<le> length [0, 0 :: 32 word]
   \<and> forward_shapes 2 2 [1, 2 :: 16 word] [3, 4] [1, 1, 1, 1, 2, 2, 2, 2] [5, 6] [5, 6 :: 16 word]
   \<and> (3 :: nat) \<noteq> 0 \<and> (3 :: nat) \<noteq> 1
   \<and> ActivateFlattenAndForward (\<lambda>x. x) times_int16 int16_to_int32 2 2
        [1, 2] [3, 4] [1, 1, 1, 1, 2, 2, 2, 2] [5, 6] [0, 0] 0 = Some [15, 26]
   \<and> map_option (fetch [0, 1, 2, 3])
        (ActivateFlattenAndForward_shared (\<lambda>x. x) (*) (\<lambda>x. x) 2 2 0 1 2 3 3 0
           (store_of [[1, 2], [3, 4], [1, 1, 1, 1, 2, 2, 2, 2], [5, 6 :: 16 word]]))
       = Some [[1, 2], [3, 4], [1, 1, 1, 1, 2, 2, 2, 2], [15, 26]]"
proof -
  let ?s = "store_of [[1, 2], [3, 4], [1, 1, 1, 1, 2, 2, 2, 2], [5, 6 :: 16 word]]"
  have shapes: "forward_shapes 2 2 [1, 2 :: 16 word] [3, 4] [1, 1, 1, 1, 2, 2, 2, 2] [5, 6]
      [0, 0 :: 32 word]"
    by (simp add: forward_shapes_def)
  have inB: "unat (0 :: 32 word) + 2 \<le> length [5, 6 :: 16 word]"
    and inO: "unat (0 :: 32 word) + 2 \<le> length [0, 0 :: 32 word]"
    by simp_all
  have shapes': "forward_shapes 2 2 (?s 0) (?s 1) (?s 2) (?s 3) (?s 3)"
    by (simp add: forward_shapes_def store_of_def)
  have inB': "unat (0 :: 32 word) + 2 \<le> length (?s 3)"
    by (simp add: store_of_def)
  have separate: "(3 :: nat) \<noteq> 0" "(3 :: nat) \<noteq> 1" by simp_all
  note claim = ActivateFlattenAndForward_output [OF shapes inB inO shapes' inB' inB' separate,
      of "\<lambda>x. x" times_int16 int16_to_int32 "\<lambda>x. x" "(*)" "\<lambda>x. x"]
  from claim
  obtain out where run: "ActivateFlattenAndForward (\<lambda>x. x) times_int16 int16_to_int32 2 2
        [1, 2] [3, 4] [1, 1, 1, 1, 2, 2, 2, 2] [5, 6] [0, 0] 0 = Some out"
    and len: "length out = length [0, 0 :: 32 word]"
    and val: "\<forall>i<2. out ! (unat (0 :: 32 word) + i) =
                  foldl (\<lambda>acc j. acc
                      + times_int16 ([1, 2] ! j) ([1, 1, 1, 1, 2, 2, 2, 2] ! (i * 2 * 2 + j))
                      + times_int16 ([3, 4] ! j) ([1, 1, 1, 1, 2, 2, 2, 2] ! (i * 2 * 2 + 2 + j)))
                    0 [0..<2]
                  + int16_to_int32 ([5, 6] ! (unat (0 :: 32 word) + i))"
    by blast
  have upt2: "[0..<2] = [0, 1]" by (simp add: upt_rec)
  from val have "out ! 0 = 15" "out ! 1 = 26"
    by (simp_all add: all_less_two upt2 times_int16_def int16_to_int32_def)
  with len have out: "out = [15, 26]" by (intro list2_eqI) simp_all
  from claim
  obtain s' where run': "ActivateFlattenAndForward_shared (\<lambda>x. x) (*) (\<lambda>x. x) 2 2 0 1 2 3 3 0 ?s
        = Some s'"
    and rest: "\<forall>r. r \<noteq> 3 \<longrightarrow> s' r = ?s r"
    and len': "length (s' 3) = length (?s 3)"
    and val': "\<forall>i<2. s' 3 ! (unat (0 :: 32 word) + i) =
                  foldl (\<lambda>acc j. acc
                      + (?s 0 ! j) * (?s 2 ! (i * 2 * 2 + j))
                      + (?s 1 ! j) * (?s 2 ! (i * 2 * 2 + 2 + j)))
                    0 [0..<2]
                  + ?s 3 ! (unat (0 :: 32 word) + i)"
    by blast
  from val' have "s' 3 ! 0 = 15" "s' 3 ! 1 = 26"
    by (simp_all add: all_less_two upt2 store_of_def)
  moreover from len' have "length (s' 3) = 2" by (simp add: store_of_def)
  ultimately have "s' 3 = [15, 26]" by (intro list2_eqI) simp_all
  moreover from rest have "s' 0 = [1, 2]" "s' 1 = [3, 4]" "s' 2 = [1, 1, 1, 1, 2, 2, 2, 2]"
    by (simp_all add: store_of_def)
  ultimately have "fetch [0, 1, 2, 3] s' = [[1, 2], [3, 4], [1, 1, 1, 1, 2, 2, 2, 2], [15, 26]]"
    by (simp add: fetch_def)
  with run run' out shapes inB inO show ?thesis
    by (simp add: forward_shapes_def)
qed
subsection \<open>C2: SubtractAndAddToAll, element by element\<close>

text \<open>
  Claim C2 says that for in-bounds offsets the fused kernel leaves
  \<open>inputA[i] = old inputA[i] - delta[oAS + i] + delta[oAA + i]\<close> and
  \<open>inputB[i] = old inputB[i] - delta[oBS + i] + delta[oBA + i]\<close>, with \<open>delta\<close>
  unchanged. The kernel takes its arrays by reference. Called with the same array
  \<open>{1, 2}\<close> as \<open>inputA\<close> and \<open>inputB\<close>, \<open>delta = {10, 20, 30, 40}\<close> and the
  in-bounds offsets 0, 1, 2, 1, it leaves \<open>{1, 2}\<close> where the claim says
  \<open>{1 - 10 + 20, 2 - 20 + 30}\<close>. Called with \<open>T = float\<close> and the same array
  \<open>{-0.0}\<close> as \<open>inputA\<close> and \<open>delta\<close>, it changes \<open>delta\<close> to \<open>{+0.0}\<close>;
  and so it does with the same array \<open>{-0.0}\<close> as \<open>inputB\<close> and \<open>delta\<close>.
\<close>

theorem SubtractAndAddToAll_aliased_counterexample:
  "length (store_of [[1, 2], [10, 20, 30, 40 :: 16 word]] 0) = 2
   \<and> unat (0 :: 32 word) + 2 \<le> length (store_of [[1, 2], [10, 20, 30, 40 :: 16 word]] 1)
   \<and> unat (1 :: 32 word) + 2 \<le> length (store_of [[1, 2], [10, 20, 30, 40 :: 16 word]] 1)
   \<and> unat (2 :: 32 word) + 2 \<le> length (store_of [[1, 2], [10, 20, 30, 40 :: 16 word]] 1)
   \<and> map_option (fetch [0, 1])
        (SubtractAndAddToAll 2 0 0 1 0 1 2 1 (store_of [[1, 2], [10, 20, 30, 40 :: 16 word]]))
       = Some [[1, 2], [10, 20, 30, 40]]
   \<and> [1, 2] \<noteq> [1 - 10 + 20, 2 - 20 + 30 :: 16 word]
   \<and> fetch [0, 1] (store_of [[NZ], [PZ]]) = [[NZ], [PZ]]
   \<and> unat (0 :: 32 word) + 1 \<le> length (store_of [[NZ], [PZ]] 0)
   \<and> map_option (fetch [0, 1])
        (SubtractAndAddToAll 1 0 1 0 0 0 0 0 (store_of [[NZ], [PZ]]))
       = Some [[PZ], [PZ]]
   \<and> fetch [0, 1] (store_of [[PZ], [NZ]]) = [[PZ], [NZ]]
   \<and> unat (0 :: 32 word) + 1 \<le> length (store_of [[PZ], [NZ]] 1)
   \<and> map_option (fetch [0, 1])
        (SubtractAndAddToAll 1 0 1 1 0 0 0 0 (store_of [[PZ], [NZ]]))
       = Some [[PZ], [PZ]]"
  by (simp add: update_kernel_eval plus_signed_zero_def minus_signed_zero_def)

text \<open>
  Claim C2 as amended. When \<open>inputA\<close>, \<open>inputB\<close> and \<open>delta\<close> are three different
  arrays, the accumulators have \<open>InputSize\<close> elements and the four offsets each keep
  their slice inside \<open>delta\<close>, \<open>SubtractAndAddToAll\<close> succeeds and leaves
  \<open>inputA[i] = old inputA[i] - delta[oAS + i] + delta[oAA + i]\<close> and
  \<open>inputB[i] = old inputB[i] - delta[oBS + i] + delta[oBA + i]\<close> for every
  \<open>i < InputSize\<close>, with \<open>delta\<close> unchanged. The element type is any type with
  \<open>+\<close> and \<open>-\<close>; no law of arithmetic is used.
\<close>

theorem SubtractAndAddToAll_elementwise:
  fixes s :: "'a::{plus,minus} store"
  assumes distinct: "inputA \<noteq> inputB" "delta \<noteq> inputA" "delta \<noteq> inputB"
    and len: "length (s inputA) = InputSize" "length (s inputB) = InputSize"
    and inb: "unat oAS + InputSize \<le> length (s delta)" "unat oAA + InputSize \<le> length (s delta)"
      "unat oBS + InputSize \<le> length (s delta)" "unat oBA + InputSize \<le> length (s delta)"
  shows "\<exists>s'. SubtractAndAddToAll InputSize inputA inputB delta oAS oAA oBS oBA s = Some s'
            \<and> length (s' inputA) = InputSize \<and> length (s' inputB) = InputSize
            \<and> (\<forall>i<InputSize.
                  s' inputA ! i = s inputA ! i - s delta ! (unat oAS + i) + s delta ! (unat oAA + i)
                \<and> s' inputB ! i = s inputB ! i - s delta ! (unat oBS + i) + s delta ! (unat oBA + i))
            \<and> s' delta = s delta"
  using distinct
  by (simp add: SubtractAndAddToAll_eq [OF distinct(1) len inb] slice_update2_apply)

theorem SubtractAndAddToAll_elementwise_witness:
  "(0 :: nat) \<noteq> 1 \<and> (2 :: nat) \<noteq> 0 \<and> (2 :: nat) \<noteq> 1
   \<and> length (store_of [[1, 2], [3, 4], [10, 20, 30, 40 :: 16 word]] 0) = 2
   \<and> length (store_of [[1, 2], [3, 4], [10, 20, 30, 40 :: 16 word]] 1) = 2
   \<and> unat (0 :: 32 word) + 2 \<le> length (store_of [[1, 2], [3, 4], [10, 20, 30, 40 :: 16 word]] 2)
   \<and> unat (1 :: 32 word) + 2 \<le> length (store_of [[1, 2], [3, 4], [10, 20, 30, 40 :: 16 word]] 2)
   \<and> unat (2 :: 32 word) + 2 \<le> length (store_of [[1, 2], [3, 4], [10, 20, 30, 40 :: 16 word]] 2)
   \<and> map_option (fetch [0, 1, 2])
        (SubtractAndAddToAll 2 0 1 2 0 1 2 1
           (store_of [[1, 2], [3, 4], [10, 20, 30, 40 :: 16 word]]))
       = Some [[11, 12], [- 7, - 6], [10, 20, 30, 40]]"
proof -
  let ?s = "store_of [[1, 2], [3, 4], [10, 20, 30, 40 :: 16 word]]"
  have distinct: "(0 :: nat) \<noteq> 1" "(2 :: nat) \<noteq> 0" "(2 :: nat) \<noteq> 1" by simp_all
  have len: "length (?s 0) = 2" "length (?s 1) = 2"
    and inb: "unat (0 :: 32 word) + 2 \<le> length (?s 2)" "unat (1 :: 32 word) + 2 \<le> length (?s 2)"
      "unat (2 :: 32 word) + 2 \<le> length (?s 2)"
    by (simp_all add: store_of_def)
  from SubtractAndAddToAll_elementwise [OF distinct len inb(1) inb(2) inb(3) inb(2)]
  obtain s' where run: "SubtractAndAddToAll 2 0 1 2 0 1 2 1 ?s = Some s'"
    and "length (s' 0) = 2" "length (s' 1) = 2"
    and "\<forall>i<2. s' 0 ! i = ?s 0 ! i - ?s 2 ! (unat (0 :: 32 word) + i)
                             + ?s 2 ! (unat (1 :: 32 word) + i)
              \<and> s' 1 ! i = ?s 1 ! i - ?s 2 ! (unat (2 :: 32 word) + i)
                             + ?s 2 ! (unat (1 :: 32 word) + i)"
    and "s' 2 = ?s 2"
    by blast
  then have "s' 0 = [11, 12]" "s' 1 = [- 7, - 6]" "s' 2 = [10, 20, 30, 40]"
    by (auto intro!: list2_eqI simp: store_of_def)
  then have "fetch [0, 1, 2] s' = [[11, 12], [- 7, - 6], [10, 20, 30, 40]]"
    by (simp add: fetch_def)
  with run distinct len inb show ?thesis by simp
qed

subsection \<open>C3: AddToAll and SubtractFromAll, element by element\<close>

text \<open>
  Claim C3 says that for in-bounds offsets \<open>AddToAll\<close> leaves
  \<open>inputA[i] = old inputA[i] + delta[oA + i]\<close> and
  \<open>inputB[i] = old inputB[i] + delta[oB + i]\<close>, that \<open>SubtractFromAll\<close> does the same
  with \<open>-\<close>, and that neither modifies \<open>delta\<close>. The kernels take their arrays by
  reference. \<open>AddToAll\<close> called with the same array \<open>{1, 2}\<close> as \<open>inputA\<close> and
  \<open>inputB\<close>, \<open>delta = {10, 20, 30}\<close>, \<open>oA = 0\<close> and \<open>oB = 1\<close> leaves
  \<open>{31, 52}\<close> where the claim says \<open>{1 + 10, 2 + 20}\<close>. Called with the same array
  \<open>{1, 2}\<close> as \<open>inputA\<close> and \<open>delta\<close>, \<open>inputB = {3, 4}\<close> and both offsets 0, it
  modifies \<open>delta\<close> to \<open>{2, 4}\<close> and leaves \<open>inputB = {5, 8}\<close> where the claim says
  \<open>{3 + 1, 4 + 2}\<close>. Called with \<open>inputA = {1, 2}\<close> and the same array \<open>{3, 4}\<close>
  as \<open>inputB\<close> and \<open>delta\<close>, it modifies \<open>delta\<close> to \<open>{6, 8}\<close>.
\<close>

theorem AddToAll_aliased_counterexample:
  "length (store_of [[1, 2], [10, 20, 30 :: 16 word]] 0) = 2
   \<and> unat (0 :: 32 word) + 2 \<le> length (store_of [[1, 2], [10, 20, 30 :: 16 word]] 1)
   \<and> unat (1 :: 32 word) + 2 \<le> length (store_of [[1, 2], [10, 20, 30 :: 16 word]] 1)
   \<and> map_option (fetch [0, 1])
        (AddToAll 2 0 0 1 0 1 (store_of [[1, 2], [10, 20, 30 :: 16 word]]))
       = Some [[31, 52], [10, 20, 30]]
   \<and> [31, 52] \<noteq> [1 + 10, 2 + 20 :: 16 word]
   \<and> length (store_of [[1, 2], [3, 4 :: 16 word]] 1) = 2
   \<and> unat (0 :: 32 word) + 2 \<le> length (store_of [[1, 2], [3, 4 :: 16 word]] 0)
   \<and> map_option (fetch [0, 1])
        (AddToAll 2 0 1 0 0 0 (store_of [[1, 2], [3, 4 :: 16 word]]))
       = Some [[2, 4], [5, 8]]
   \<and> [2, 4] \<noteq> [1, 2 :: 16 word]
   \<and> [5, 8] \<noteq> [3 + 1, 4 + 2 :: 16 word]
   \<and> length (store_of [[1, 2], [3, 4 :: 16 word]] 0) = 2
   \<and> unat (0 :: 32 word) + 2 \<le> length (store_of [[1, 2], [3, 4 :: 16 word]] 1)
   \<and> map_option (fetch [0, 1])
        (AddToAll 2 0 1 1 0 0 (store_of [[1, 2], [3, 4 :: 16 word]]))
       = Some [[4, 6], [6, 8]]
   \<and> [6, 8] \<noteq> [3, 4 :: 16 word]"
  by (simp add: update_kernel_eval)

text \<open>
  Claim C3 as amended. When \<open>inputA\<close>, \<open>inputB\<close> and \<open>delta\<close> are three different
  arrays, the accumulators have \<open>InputSize\<close> elements, \<open>oA + InputSize \<le> DeltaSize\<close>
  and \<open>oB + InputSize \<le> DeltaSize\<close>, \<open>AddToAll\<close> succeeds and leaves
  \<open>inputA[i] = old inputA[i] + delta[oA + i]\<close> and
  \<open>inputB[i] = old inputB[i] + delta[oB + i]\<close> for every \<open>i < InputSize\<close>,
  \<open>SubtractFromAll\<close> does the same with \<open>-\<close> for \<open>+\<close>, and neither modifies
  \<open>delta\<close>. The element type is any type with \<open>+\<close> and \<open>-\<close>; no law of arithmetic
  is used.
\<close>

theorem AddToAll_SubtractFromAll_elementwise:
  fixes s :: "'a::{plus,minus} store"
  assumes distinct: "inputA \<noteq> inputB" "delta \<noteq> inputA" "delta \<noteq> inputB"
    and len: "length (s inputA) = InputSize" "length (s inputB) = InputSize"
    and inb: "unat oA + InputSize \<le> length (s delta)" "unat oB + InputSize \<le> length (s delta)"
  shows "(\<exists>s'. AddToAll InputSize inputA inputB delta oA oB s = Some s'
            \<and> length (s' inputA) = InputSize \<and> length (s' inputB) = InputSize
            \<and> (\<forall>i<InputSize. s' inputA ! i = s inputA ! i + s delta ! (unat oA + i)
                            \<and> s' inputB ! i = s inputB ! i + s delta ! (unat oB + i))
            \<and> s' delta = s delta)
       \<and> (\<exists>s'. SubtractFromAll InputSize inputA inputB delta oA oB s = Some s'
            \<and> length (s' inputA) = InputSize \<and> length (s' inputB) = InputSize
            \<and> (\<forall>i<InputSize. s' inputA ! i = s inputA ! i - s delta ! (unat oA + i)
                            \<and> s' inputB ! i = s inputB ! i - s delta ! (unat oB + i))
            \<and> s' delta = s delta)"
  using distinct
  by (simp add: AddToAll_eq [OF len inb] SubtractFromAll_eq [OF len inb] slice_update_apply)

theorem AddToAll_SubtractFromAll_elementwise_witness:
  "(0 :: nat) \<noteq> 1 \<and> (2 :: nat) \<noteq> 0 \<and> (2 :: nat) \<noteq> 1
   \<and> length (store_of [[1, 2], [3, 4], [10, 20, 30 :: 16 word]] 0) = 2
   \<and> length (store_of [[1, 2], [3, 4], [10, 20, 30 :: 16 word]] 1) = 2
   \<and> unat (0 :: 32 word) + 2 \<le> length (store_of [[1, 2], [3, 4], [10, 20, 30 :: 16 word]] 2)
   \<and> unat (1 :: 32 word) + 2 \<le> length (store_of [[1, 2], [3, 4], [10, 20, 30 :: 16 word]] 2)
   \<and> map_option (fetch [0, 1, 2])
        (AddToAll 2 0 1 2 0 1 (store_of [[1, 2], [3, 4], [10, 20, 30 :: 16 word]]))
       = Some [[11, 22], [23, 34], [10, 20, 30]]
   \<and> map_option (fetch [0, 1, 2])
        (SubtractFromAll 2 0 1 2 0 1 (store_of [[1, 2], [3, 4], [10, 20, 30 :: 16 word]]))
       = Some [[- 9, - 18], [- 17, - 26], [10, 20, 30]]"
proof -
  let ?s = "store_of [[1, 2], [3, 4], [10, 20, 30 :: 16 word]]"
  have distinct: "(0 :: nat) \<noteq> 1" "(2 :: nat) \<noteq> 0" "(2 :: nat) \<noteq> 1" by simp_all
  have len: "length (?s 0) = 2" "length (?s 1) = 2"
    and inb: "unat (0 :: 32 word) + 2 \<le> length (?s 2)" "unat (1 :: 32 word) + 2 \<le> length (?s 2)"
    by (simp_all add: store_of_def)
  note inst = AddToAll_SubtractFromAll_elementwise [OF distinct len inb]
  from inst obtain s' where add: "AddToAll 2 0 1 2 0 1 ?s = Some s'"
    and "length (s' 0) = 2" "length (s' 1) = 2"
    and "\<forall>i<2. s' 0 ! i = ?s 0 ! i + ?s 2 ! (unat (0 :: 32 word) + i)
              \<and> s' 1 ! i = ?s 1 ! i + ?s 2 ! (unat (1 :: 32 word) + i)"
    and "s' 2 = ?s 2"
    by blast
  then have "s' 0 = [11, 22]" "s' 1 = [23, 34]" "s' 2 = [10, 20, 30]"
    by (auto intro!: list2_eqI simp: store_of_def)
  then have added: "fetch [0, 1, 2] s' = [[11, 22], [23, 34], [10, 20, 30]]"
    by (simp add: fetch_def)
  from inst obtain s'' where sub: "SubtractFromAll 2 0 1 2 0 1 ?s = Some s''"
    and "length (s'' 0) = 2" "length (s'' 1) = 2"
    and "\<forall>i<2. s'' 0 ! i = ?s 0 ! i - ?s 2 ! (unat (0 :: 32 word) + i)
              \<and> s'' 1 ! i = ?s 1 ! i - ?s 2 ! (unat (1 :: 32 word) + i)"
    and "s'' 2 = ?s 2"
    by blast
  then have "s'' 0 = [- 9, - 18]" "s'' 1 = [- 17, - 26]" "s'' 2 = [10, 20, 30]"
    by (auto intro!: list2_eqI simp: store_of_def)
  then have subtracted: "fetch [0, 1, 2] s'' = [[- 9, - 18], [- 17, - 26], [10, 20, 30]]"
    by (simp add: fetch_def)
  from add added sub subtracted distinct len inb show ?thesis by simp
qed

subsection \<open>C4: the fused kernel and subtract followed by add\<close>

text \<open>
  Claim C4 says that for every element type, every state and in-bounds offsets one call
  \<open>SubtractAndAddToAll(inputA, inputB, delta, oAS, oAA, oBS, oBA)\<close> leaves the
  accumulators that \<open>SubtractFromAll(inputA, inputB, delta, oAS, oBS)\<close> followed by
  \<open>AddToAll(inputA, inputB, delta, oAA, oBA)\<close> leaves. The kernels take their arrays by
  reference. With the same array \<open>{1, 2}\<close> as \<open>inputA\<close> and \<open>delta\<close>,
  \<open>inputB = {3, 4}\<close> and all offsets 0, the fused call leaves \<open>inputA = {1, 2}\<close>
  and the two calls leave \<open>inputA = {0, 0}\<close>. With \<open>inputA = {1, 2}\<close>, the same
  array \<open>{3, 4}\<close> as \<open>inputB\<close> and \<open>delta\<close> and all offsets 0, the fused call leaves
  \<open>{1, 2}\<close> and \<open>{3, 4}\<close>, and the two calls leave \<open>{-2, -2}\<close> and \<open>{0, 0}\<close>.
  With \<open>T = float\<close>, the same array
  \<open>{1}\<close> as \<open>inputA\<close> and \<open>inputB\<close>, \<open>delta = {0, 1, -33554436}\<close> and the
  offsets \<open>oAS = 0\<close>, \<open>oAA = 1\<close>, \<open>oBS = 2\<close>, \<open>oBA = 0\<close>, the fused call
  computes \<open>((1 - 0 + 1) + 33554436) + 0 = 33554440\<close> (the sum 33554438 lies halfway
  between two \<open>binary32\<close> numbers and rounds to the even one) and the two calls compute
  \<open>(((1 - 0) + 33554436) + 1) + 0 = 33554436\<close> (33554437 rounds down, twice).
\<close>

theorem fusion_aliased_counterexample:
  "length (store_of [[1, 2], [3, 4 :: 16 word]] 1) = 2
   \<and> unat (0 :: 32 word) + 2 \<le> length (store_of [[1, 2], [3, 4 :: 16 word]] 0)
   \<and> map_option (fetch [0, 1])
        (SubtractAndAddToAll 2 0 1 0 0 0 0 0 (store_of [[1, 2], [3, 4 :: 16 word]]))
       = Some [[1, 2], [3, 4]]
   \<and> map_option (fetch [0, 1])
        (SubtractFromAll 2 0 1 0 0 0 (store_of [[1, 2], [3, 4 :: 16 word]])
           \<bind> AddToAll 2 0 1 0 0 0)
       = Some [[0, 0], [3, 4]]
   \<and> [1, 2] \<noteq> [0, 0 :: 16 word]
   \<and> length (store_of [[1, 2], [3, 4 :: 16 word]] 0) = 2
   \<and> unat (0 :: 32 word) + 2 \<le> length (store_of [[1, 2], [3, 4 :: 16 word]] 1)
   \<and> map_option (fetch [0, 1])
        (SubtractAndAddToAll 2 0 1 1 0 0 0 0 (store_of [[1, 2], [3, 4 :: 16 word]]))
       = Some [[1, 2], [3, 4]]
   \<and> map_option (fetch [0, 1])
        (SubtractFromAll 2 0 1 1 0 0 (store_of [[1, 2], [3, 4 :: 16 word]])
           \<bind> AddToAll 2 0 1 1 0 0)
       = Some [[- 2, - 2], [0, 0]]
   \<and> [[1, 2], [3, 4]] \<noteq> [[- 2, - 2], [0, 0 :: 16 word]]
   \<and> unat (2 :: 32 word) + 1
        \<le> length (store_of [[Float32 1], [0, Float32 1, Float32 (- 33554436)]] 1)
   \<and> map_option (fetch [0])
        (SubtractAndAddToAll 1 0 0 1 0 1 2 0
           (store_of [[Float32 1], [0, Float32 1, Float32 (- 33554436)]]))
       = Some [[Float32 33554440]]
   \<and> map_option (fetch [0])
        (SubtractFromAll 1 0 0 1 0 2
           (store_of [[Float32 1], [0, Float32 1, Float32 (- 33554436)]])
           \<bind> AddToAll 1 0 0 1 1 0)
       = Some [[Float32 33554436]]"
  by (simp add: update_kernel_eval zero_float32_def binary32_roundings)

text \<open>
  Claim C4 as amended. When \<open>inputA\<close>, \<open>inputB\<close> and \<open>delta\<close> are three different
  arrays, the accumulators have \<open>InputSize\<close> elements and the four offsets each keep
  their slice inside \<open>delta\<close>, the fused call and \<open>SubtractFromAll\<close> followed by
  \<open>AddToAll\<close> both succeed and leave the same arrays. The element type is any type with
  \<open>+\<close> and \<open>-\<close>: both runs compute \<open>(x - d) + e\<close> for each element.
\<close>

theorem SubtractAndAddToAll_fuses:
  fixes s :: "'a::{plus,minus} store"
  assumes distinct: "inputA \<noteq> inputB" "delta \<noteq> inputA" "delta \<noteq> inputB"
    and len: "length (s inputA) = InputSize" "length (s inputB) = InputSize"
    and inS: "unat oAS + InputSize \<le> length (s delta)" "unat oBS + InputSize \<le> length (s delta)"
    and inA: "unat oAA + InputSize \<le> length (s delta)" "unat oBA + InputSize \<le> length (s delta)"
  shows "\<exists>s'. SubtractAndAddToAll InputSize inputA inputB delta oAS oAA oBS oBA s = Some s'
          \<and> (SubtractFromAll InputSize inputA inputB delta oAS oBS s
               \<bind> AddToAll InputSize inputA inputB delta oAA oBA) = Some s'"
proof -
  let ?s2 = "slice_update (-) inputB delta (unat oBS) InputSize
              (slice_update (-) inputA delta (unat oAS) InputSize s)"
  have sub: "SubtractFromAll InputSize inputA inputB delta oAS oBS s = Some ?s2"
    by (rule SubtractFromAll_eq [OF len inS])
  have add: "AddToAll InputSize inputA inputB delta oAA oBA ?s2 =
      Some (slice_update (+) inputB delta (unat oBA) InputSize
             (slice_update (+) inputA delta (unat oAA) InputSize ?s2))"
    by (rule AddToAll_eq) (use len inA distinct in \<open>simp_all add: slice_update_apply\<close>)
  have fused: "SubtractAndAddToAll InputSize inputA inputB delta oAS oAA oBS oBA s =
      Some (slice_update2 (\<lambda>x d e. x - d + e) inputB delta (unat oBS) (unat oBA) InputSize
             (slice_update2 (\<lambda>x d e. x - d + e) inputA delta (unat oAS) (unat oAA) InputSize s))"
    by (rule SubtractAndAddToAll_eq [OF distinct(1) len inS(1) inA(1) inS(2) inA(2)])
  have "slice_update (+) inputB delta (unat oBA) InputSize
             (slice_update (+) inputA delta (unat oAA) InputSize ?s2)
      = slice_update2 (\<lambda>x d e. x - d + e) inputB delta (unat oBS) (unat oBA) InputSize
             (slice_update2 (\<lambda>x d e. x - d + e) inputA delta (unat oAS) (unat oAA) InputSize s)"
    using distinct by (auto simp: fun_eq_iff slice_update_apply slice_update2_apply)
  then show ?thesis
    unfolding fused sub by (simp add: add)
qed

theorem SubtractAndAddToAll_fuses_witness:
  "(0 :: nat) \<noteq> 1 \<and> (2 :: nat) \<noteq> 0 \<and> (2 :: nat) \<noteq> 1
   \<and> length (store_of [[1, 2], [3, 4], [10, 20, 30, 40 :: 16 word]] 0) = 2
   \<and> length (store_of [[1, 2], [3, 4], [10, 20, 30, 40 :: 16 word]] 1) = 2
   \<and> unat (0 :: 32 word) + 2 \<le> length (store_of [[1, 2], [3, 4], [10, 20, 30, 40 :: 16 word]] 2)
   \<and> unat (1 :: 32 word) + 2 \<le> length (store_of [[1, 2], [3, 4], [10, 20, 30, 40 :: 16 word]] 2)
   \<and> unat (2 :: 32 word) + 2 \<le> length (store_of [[1, 2], [3, 4], [10, 20, 30, 40 :: 16 word]] 2)
   \<and> map_option (fetch [0, 1, 2])
        (SubtractAndAddToAll 2 0 1 2 0 1 2 1
           (store_of [[1, 2], [3, 4], [10, 20, 30, 40 :: 16 word]]))
       = Some [[11, 12], [- 7, - 6], [10, 20, 30, 40]]
   \<and> map_option (fetch [0, 1, 2])
        (SubtractFromAll 2 0 1 2 0 2 (store_of [[1, 2], [3, 4], [10, 20, 30, 40 :: 16 word]])
           \<bind> AddToAll 2 0 1 2 1 1)
       = Some [[11, 12], [- 7, - 6], [10, 20, 30, 40]]"
proof -
  let ?s = "store_of [[1, 2], [3, 4], [10, 20, 30, 40 :: 16 word]]"
  have distinct: "(0 :: nat) \<noteq> 1" "(2 :: nat) \<noteq> 0" "(2 :: nat) \<noteq> 1" by simp_all
  have len: "length (?s 0) = 2" "length (?s 1) = 2"
    and inb: "unat (0 :: 32 word) + 2 \<le> length (?s 2)" "unat (1 :: 32 word) + 2 \<le> length (?s 2)"
      "unat (2 :: 32 word) + 2 \<le> length (?s 2)"
    by (simp_all add: store_of_def)
  have fused: "map_option (fetch [0, 1, 2]) (SubtractAndAddToAll 2 0 1 2 0 1 2 1 ?s)
      = Some [[11, 12], [- 7, - 6], [10, 20, 30, 40]]"
    by (simp add: update_kernel_eval)
  from SubtractAndAddToAll_fuses [OF distinct len inb(1) inb(3) inb(2) inb(2)]
  obtain s' where "SubtractAndAddToAll 2 0 1 2 0 1 2 1 ?s = Some s'"
    and "(SubtractFromAll 2 0 1 2 0 2 ?s \<bind> AddToAll 2 0 1 2 1 1) = Some s'"
    by blast
  with fused have "map_option (fetch [0, 1, 2])
        (SubtractFromAll 2 0 1 2 0 2 ?s \<bind> AddToAll 2 0 1 2 1 1)
      = Some [[11, 12], [- 7, - 6], [10, 20, 30, 40]]"
    by simp
  with fused distinct len inb show ?thesis by simp
qed

subsection \<open>C5: add then subtract restores the accumulators\<close>

text \<open>
  Claim C5 says that for an integer element type, every state and in-bounds offsets,
  \<open>AddToAll\<close> followed by \<open>SubtractFromAll\<close> with the same offsets restores both
  accumulators. The kernels take their arrays by reference. With the same array
  \<open>{1, 2}\<close> as \<open>inputA\<close> and \<open>delta\<close>, \<open>inputB = {3, 4}\<close> and both offsets 0,
  the two calls leave \<open>inputA = {0, 0}\<close> and \<open>inputB = {5, 8}\<close>. With
  \<open>inputA = {1, 2}\<close>, the same array \<open>{3, 4}\<close> as \<open>inputB\<close> and \<open>delta\<close> and both
  offsets 0, they leave \<open>inputA = {-2, -2}\<close> and \<open>inputB = {0, 0}\<close>.
\<close>

theorem AddToAll_SubtractFromAll_aliased_counterexample:
  "length (store_of [[1, 2], [3, 4 :: 16 word]] 0) = 2
   \<and> length (store_of [[1, 2], [3, 4 :: 16 word]] 1) = 2
   \<and> unat (0 :: 32 word) + 2 \<le> length (store_of [[1, 2], [3, 4 :: 16 word]] 0)
   \<and> fetch [0, 1] (store_of [[1, 2], [3, 4 :: 16 word]]) = [[1, 2], [3, 4]]
   \<and> map_option (fetch [0, 1])
        (AddToAll 2 0 1 0 0 0 (store_of [[1, 2], [3, 4 :: 16 word]])
           \<bind> SubtractFromAll 2 0 1 0 0 0)
       = Some [[0, 0], [5, 8]]
   \<and> [[0, 0], [5, 8]] \<noteq> [[1, 2], [3, 4 :: 16 word]]
   \<and> unat (0 :: 32 word) + 2 \<le> length (store_of [[1, 2], [3, 4 :: 16 word]] 1)
   \<and> map_option (fetch [0, 1])
        (AddToAll 2 0 1 1 0 0 (store_of [[1, 2], [3, 4 :: 16 word]])
           \<bind> SubtractFromAll 2 0 1 1 0 0)
       = Some [[- 2, - 2], [0, 0]]
   \<and> [[- 2, - 2], [0, 0]] \<noteq> [[1, 2], [3, 4 :: 16 word]]"
  by (simp add: update_kernel_eval)

text \<open>
  Claim C5 as amended. For an integer element type, when \<open>delta\<close> is a different array
  from \<open>inputA\<close> and from \<open>inputB\<close> (which may be the same array), the accumulators
  have \<open>InputSize\<close> elements and both offsets keep their slice inside \<open>delta\<close>,
  \<open>AddToAll\<close> followed by \<open>SubtractFromAll\<close> with the same offsets succeeds and
  leaves every array as it was. The theorem is stated for every commutative additive
  group; each machine integer type \<open>'a word\<close>, with its wrap-around \<open>+\<close> and
  \<open>-\<close>, is one.
\<close>

theorem AddToAll_then_SubtractFromAll_restores:
  fixes s :: "'a::ab_group_add store"
  assumes distinct: "delta \<noteq> inputA" "delta \<noteq> inputB"
    and len: "length (s inputA) = InputSize" "length (s inputB) = InputSize"
    and inb: "unat oA + InputSize \<le> length (s delta)" "unat oB + InputSize \<le> length (s delta)"
  shows "(AddToAll InputSize inputA inputB delta oA oB s
            \<bind> SubtractFromAll InputSize inputA inputB delta oA oB) = Some s"
proof -
  let ?s2 = "slice_update (+) inputB delta (unat oB) InputSize
              (slice_update (+) inputA delta (unat oA) InputSize s)"
  have add: "AddToAll InputSize inputA inputB delta oA oB s = Some ?s2"
    by (rule AddToAll_eq [OF len inb])
  have sub: "SubtractFromAll InputSize inputA inputB delta oA oB ?s2 =
      Some (slice_update (-) inputB delta (unat oB) InputSize
             (slice_update (-) inputA delta (unat oA) InputSize ?s2))"
    by (rule SubtractFromAll_eq) (use len inb distinct in \<open>simp_all add: slice_update_apply\<close>)
  have "slice_update (-) inputB delta (unat oB) InputSize
             (slice_update (-) inputA delta (unat oA) InputSize ?s2) r = s r" for r
    using distinct len
    by (cases "inputA = inputB")
      (auto simp: slice_update_apply intro!: map_upt_nth_id)
  then have "slice_update (-) inputB delta (unat oB) InputSize
             (slice_update (-) inputA delta (unat oA) InputSize ?s2) = s"
    by (simp add: fun_eq_iff)
  then show ?thesis
    unfolding add by (simp add: sub)
qed

theorem AddToAll_then_SubtractFromAll_restores_witness:
  "(1 :: nat) \<noteq> 0
   \<and> length (store_of [[65535, 2], [10, 20, 30 :: 16 word]] 0) = 2
   \<and> unat (0 :: 32 word) + 2 \<le> length (store_of [[65535, 2], [10, 20, 30 :: 16 word]] 1)
   \<and> unat (1 :: 32 word) + 2 \<le> length (store_of [[65535, 2], [10, 20, 30 :: 16 word]] 1)
   \<and> (AddToAll 2 0 0 1 0 1 (store_of [[65535, 2], [10, 20, 30 :: 16 word]])
         \<bind> SubtractFromAll 2 0 0 1 0 1)
       = Some (store_of [[65535, 2], [10, 20, 30]])"
proof -
  let ?s = "store_of [[65535, 2], [10, 20, 30 :: 16 word]]"
  have distinct: "(1 :: nat) \<noteq> 0" by simp
  have len: "length (?s 0) = 2"
    and inb: "unat (0 :: 32 word) + 2 \<le> length (?s 1)" "unat (1 :: 32 word) + 2 \<le> length (?s 1)"
    by (simp_all add: store_of_def)
  from AddToAll_then_SubtractFromAll_restores [OF distinct distinct len len inb] distinct len inb
  show ?thesis by simp
qed

subsection \<open>C6: where the forward pass reads the bias and writes the output\<close>

text \<open>
  Claim C6 says that for every offset \<open>o\<close> the kernel takes a bias container of at least
  \<open>o + OutputSize\<close> elements and that all its bias reads and output writes, at the
  positions \<open>o, ..., o + OutputSize - 1\<close>, are inside the containers it is given. The
  signature gives \<open>bias\<close> and \<open>output\<close> exactly \<open>OutputSize\<close> elements. With
  arguments of these shapes, \<open>OutputSize = 1\<close> and \<open>o = 1\<close>, the bias has fewer than
  \<open>o + OutputSize\<close> elements and the read of \<open>bias[1]\<close> is out of range.
\<close>

theorem offset_needs_longer_containers_counterexample:
  "forward_shapes 2 1 [1, 2 :: 16 word] [3, 4] [1, 1, 1, 1] [5] [0 :: 32 word]
   \<and> \<not> unat (1 :: 32 word) + 1 \<le> length [5 :: 16 word]
   \<and> ActivateFlattenAndForward_traced id times_int16 int16_to_int32 2 1
        [1, 2] [3, 4] [1, 1, 1, 1] [5] [0] 1 = None"
  by (simp add: forward_shapes_def forward_eval)

text \<open>
  Claim C6 as amended. For arguments of the shapes of the signature and an offset \<open>o\<close>
  that keeps the positions \<open>o, ..., o + OutputSize - 1\<close> inside \<open>bias\<close> and
  \<open>output\<close> (this is \<open>o = 0\<close>, unless \<open>OutputSize = 0\<close>), no access of the call
  fails; the call reads the bias and writes the output at the positions
  \<open>o, ..., o + OutputSize - 1\<close>, in this order, one read and one write for each;
  every such position is inside \<open>bias\<close> and \<open>output\<close>; and each position of
  \<open>[o, o + OutputSize)\<close> is read exactly once and written exactly once, and no other
  position is.
\<close>

theorem ActivateFlattenAndForward_accesses:
  fixes times_T :: "'a \<Rightarrow> 'a \<Rightarrow> 'b::monoid_add"
  assumes shapes: "forward_shapes InputSize OutputSize inputA inputB weight bias output"
    and inB: "unat off + OutputSize \<le> length bias"
    and inO: "unat off + OutputSize \<le> length output"
  shows "(off = 0 \<or> OutputSize = 0)
       \<and> (\<exists>out log. ActivateFlattenAndForward_traced Activate times_T to_OT InputSize OutputSize
                  inputA inputB weight bias output off = Some (out, log)
            \<and> log = concat (map (\<lambda>i. [BiasRead (unat off + i), OutputWrite (unat off + i)])
                        [0..<OutputSize])
            \<and> (\<forall>k. BiasRead k \<in> set log \<longrightarrow> k < length bias)
            \<and> (\<forall>k. OutputWrite k \<in> set log \<longrightarrow> k < length output)
            \<and> (\<forall>k. count_list log (BiasRead k)
                     = (if unat off \<le> k \<and> k < unat off + OutputSize then 1 else 0))
            \<and> (\<forall>k. count_list log (OutputWrite k)
                     = (if unat off \<le> k \<and> k < unat off + OutputSize then 1 else 0)))"
proof
  from shapes have "length bias = OutputSize" by (simp add: forward_shapes_def)
  with inB have "unat off = 0 \<or> OutputSize = 0" by auto
  then show "off = 0 \<or> OutputSize = 0" by (simp add: unat_eq_0)
next
  from shapes have lenA: "length inputA = InputSize" and lenB: "length inputB = InputSize"
    and lenW: "length weight = InputSize * 2 * OutputSize"
    by (simp_all add: forward_shapes_def)
  let ?log = "concat (map (\<lambda>i. [BiasRead (unat off + i), OutputWrite (unat off + i)])
                        [0..<OutputSize])"
  have reads: "\<forall>k. BiasRead k \<in> set ?log \<longrightarrow> k < length bias"
    using inB by auto
  have writes: "\<forall>k. OutputWrite k \<in> set ?log \<longrightarrow> k < length output"
    using inO by auto
  show "\<exists>out log. ActivateFlattenAndForward_traced Activate times_T to_OT InputSize OutputSize
                  inputA inputB weight bias output off = Some (out, log)
            \<and> log = ?log
            \<and> (\<forall>k. BiasRead k \<in> set log \<longrightarrow> k < length bias)
            \<and> (\<forall>k. OutputWrite k \<in> set log \<longrightarrow> k < length output)
            \<and> (\<forall>k. count_list log (BiasRead k)
                     = (if unat off \<le> k \<and> k < unat off + OutputSize then 1 else 0))
            \<and> (\<forall>k. count_list log (OutputWrite k)
                     = (if unat off \<le> k \<and> k < unat off + OutputSize then 1 else 0))"
    unfolding forward_closed [OF lenA lenB lenW inB inO]
    using reads writes by (simp add: count_accesses)
qed

theorem ActivateFlattenAndForward_accesses_witness:
  "forward_shapes 2 2 [1, 2 :: 16 word] [3, 4] [1, 1, 1, 1, 2, 2, 2, 2] [5, 6] [0, 0 :: 32 word]
   \<and> unat (0 :: 32 word) + 2 \<le> length [5, 6 :: 16 word]
   \<and> unat (0 :: 32 word) + 2 \<le> length [0, 0 :: 32 word]
   \<and> (\<exists>out. ActivateFlattenAndForward_traced id times_int16 int16_to_int32 2 2
          [1, 2] [3, 4] [1, 1, 1, 1, 2, 2, 2, 2] [5, 6] [0, 0] 0
        = Some (out, [BiasRead 0, OutputWrite 0, BiasRead 1, OutputWrite 1]))"
proof -
  have shapes: "forward_shapes 2 2 [1, 2 :: 16 word] [3, 4] [1, 1, 1, 1, 2, 2, 2, 2] [5, 6]
      [0, 0 :: 32 word]"
    by (simp add: forward_shapes_def)
  have inB: "unat (0 :: 32 word) + 2 \<le> length [5, 6 :: 16 word]"
    and inO: "unat (0 :: 32 word) + 2 \<le> length [0, 0 :: 32 word]"
    by simp_all
  have upt2: "[0..<2] = [0, 1]" by (simp add: upt_rec)
  from ActivateFlattenAndForward_accesses [OF shapes inB inO, of id times_int16 int16_to_int32]
  obtain out log where run: "ActivateFlattenAndForward_traced id times_int16 int16_to_int32 2 2
          [1, 2] [3, 4] [1, 1, 1, 1, 2, 2, 2, 2] [5, 6] [0, 0] 0 = Some (out, log)"
    and log: "log = concat (map (\<lambda>i. [BiasRead (unat (0 :: 32 word) + i),
                                      OutputWrite (unat (0 :: 32 word) + i)]) [0..<2])"
    by blast
  from log have "log = [BiasRead 0, OutputWrite 0, BiasRead 1, OutputWrite 1]"
    by (simp add: upt2)
  with run shapes inB inO show ?thesis by blast
qed

subsection \<open>C7: two additions from zero and one addition of the summed slice\<close>




subsection \<open>C8: an all-zero slice changes nothing\<close>

text \<open>
  Claim C8 says that for every element type, with in-bounds offsets addressing all-zero
  slices of \<open>delta\<close>, \<open>AddToAll\<close> and \<open>SubtractFromAll\<close> each leave both
  accumulators exactly unchanged. With \<open>T = float\<close>, \<open>inputA = {-0.0}\<close>,
  \<open>inputB = {-0.0}\<close> and \<open>delta = {0}\<close>, \<open>AddToAll\<close> leaves \<open>{+0.0}\<close> in both
  accumulators, since \<open>(-0.0) + (+0.0) = +0.0\<close>.
\<close>

theorem zero_delta_signed_zero_counterexample:
  "fetch [0, 1, 2] (store_of [[NZ], [NZ], [0]]) = [[NZ], [NZ], [0]]
   \<and> unat (0 :: 32 word) + 1 \<le> length (store_of [[NZ], [NZ], [0]] 2)
   \<and> store_of [[NZ], [NZ], [0]] 2 ! (unat (0 :: 32 word) + 0) = 0
   \<and> map_option (fetch [0, 1, 2]) (AddToAll 1 0 1 2 0 0 (store_of [[NZ], [NZ], [0]]))
       = Some [[PZ], [PZ], [0]]
   \<and> PZ \<noteq> NZ"
  by (simp add: update_kernel_eval plus_signed_zero_def zero_signed_zero_def)

text \<open>
  Claim C8 as amended. For an integer element type, accumulators of \<open>InputSize\<close>
  elements and in-bounds offsets \<open>oA\<close> and \<open>oB\<close> addressing all-zero slices of
  \<open>delta\<close>, \<open>AddToAll\<close> and \<open>SubtractFromAll\<close> each succeed and leave every array
  as it was. Any of the references may denote the same array. The theorem is stated for
  every additive group, of which each \<open>'a word\<close> is one.
\<close>

theorem zero_delta_leaves_accumulators:
  fixes s :: "'a::group_add store"
  assumes len: "length (s inputA) = InputSize" "length (s inputB) = InputSize"
    and inb: "unat oA + InputSize \<le> length (s delta)" "unat oB + InputSize \<le> length (s delta)"
    and zero: "\<forall>i<InputSize. s delta ! (unat oA + i) = 0 \<and> s delta ! (unat oB + i) = 0"
  shows "AddToAll InputSize inputA inputB delta oA oB s = Some s
       \<and> SubtractFromAll InputSize inputA inputB delta oA oB s = Some s"
  using AddToAll_zero_slices [OF len inb zero] SubtractFromAll_zero_slices [OF len inb zero]
  by simp

theorem zero_delta_leaves_accumulators_witness:
  "length (store_of [[1, 2], [3, 4], [0, 0, 0, 7 :: 16 word]] 0) = 2
   \<and> length (store_of [[1, 2], [3, 4], [0, 0, 0, 7 :: 16 word]] 1) = 2
   \<and> unat (0 :: 32 word) + 2 \<le> length (store_of [[1, 2], [3, 4], [0, 0, 0, 7 :: 16 word]] 2)
   \<and> unat (1 :: 32 word) + 2 \<le> length (store_of [[1, 2], [3, 4], [0, 0, 0, 7 :: 16 word]] 2)
   \<and> store_of [[1, 2], [3, 4], [0, 0, 0, 7 :: 16 word]] 2 ! (unat (0 :: 32 word) + 0) = 0
   \<and> store_of [[1, 2], [3, 4], [0, 0, 0, 7 :: 16 word]] 2 ! (unat (0 :: 32 word) + 1) = 0
   \<and> store_of [[1, 2], [3, 4], [0, 0, 0, 7 :: 16 word]] 2 ! (unat (1 :: 32 word) + 0) = 0
   \<and> store_of [[1, 2], [3, 4], [0, 0, 0, 7 :: 16 word]] 2 ! (unat (1 :: 32 word) + 1) = 0
   \<and> AddToAll 2 0 1 2 0 1 (store_of [[1, 2], [3, 4], [0, 0, 0, 7 :: 16 word]])
       = Some (store_of [[1, 2], [3, 4], [0, 0, 0, 7]])
   \<and> SubtractFromAll 2 0 1 2 0 1 (store_of [[1, 2], [3, 4], [0, 0, 0, 7 :: 16 word]])
       = Some (store_of [[1, 2], [3, 4], [0, 0, 0, 7]])"
proof -
  let ?s = "store_of [[1, 2], [3, 4], [0, 0, 0, 7 :: 16 word]]"
  have len: "length (?s 0) = 2" "length (?s 1) = 2"
    and inb: "unat (0 :: 32 word) + 2 \<le> length (?s 2)" "unat (1 :: 32 word) + 2 \<le> length (?s 2)"
    by (simp_all add: store_of_def)
  have zero: "\<forall>i<2. ?s 2 ! (unat (0 :: 32 word) + i) = 0 \<and> ?s 2 ! (unat (1 :: 32 word) + i) = 0"
    by (simp add: all_less_two store_of_def)
  from zero_delta_leaves_accumulators [OF len inb zero] len inb zero
  show ?thesis by (simp add: all_less_two)
qed

subsection \<open>C9: the fused kernel with equal subtract and add offsets\<close>

text \<open>
  Claim C9. For an integer element type, accumulators of \<open>InputSize\<close> elements and
  in-bounds offsets, \<open>SubtractAndAddToAll\<close> with \<open>oAS = oAA\<close> and \<open>oBS = oBA\<close>
  succeeds and leaves both \<open>inputA\<close> and \<open>inputB\<close> exactly unchanged: each element
  becomes \<open>x - delta[o + i] + delta[o + i]\<close>. The returned store is the initial one, so
  every array is unchanged, and this holds whichever of the three references denote the
  same array, since every statement writes back the value it read. The theorem is stated
  for every additive group, of which each \<open>'a word\<close> is one.
\<close>

theorem SubtractAndAddToAll_same_offsets:
  fixes s :: "'a::group_add store"
  assumes len: "length (s inputA) = InputSize" "length (s inputB) = InputSize"
    and inb: "unat oAS + InputSize \<le> length (s delta)" "unat oBS + InputSize \<le> length (s delta)"
    and same: "oAS = oAA" "oBS = oBA"
  shows "SubtractAndAddToAll InputSize inputA inputB delta oAS oAA oBS oBA s = Some s"
  unfolding SubtractAndAddToAll_def same [symmetric]
  by (rule for_loop_unchanged) (use len inb in \<open>auto simp: array_get_def array_set_def\<close>)

theorem SubtractAndAddToAll_same_offsets_witness:
  "length (store_of [[1, 2], [3, 4], [10, 20, 30 :: 16 word]] 0) = 2
   \<and> length (store_of [[1, 2], [3, 4], [10, 20, 30 :: 16 word]] 1) = 2
   \<and> unat (0 :: 32 word) + 2 \<le> length (store_of [[1, 2], [3, 4], [10, 20, 30 :: 16 word]] 2)
   \<and> unat (1 :: 32 word) + 2 \<le> length (store_of [[1, 2], [3, 4], [10, 20, 30 :: 16 word]] 2)
   \<and> SubtractAndAddToAll 2 0 1 2 0 0 1 1 (store_of [[1, 2], [3, 4], [10, 20, 30 :: 16 word]])
       = Some (store_of [[1, 2], [3, 4], [10, 20, 30]])
   \<and> fetch [0, 1, 2] (store_of [[1, 2], [3, 4], [10, 20, 30 :: 16 word]])
       = [[1, 2], [3, 4], [10, 20, 30]]"
proof -
  let ?s = "store_of [[1, 2], [3, 4], [10, 20, 30 :: 16 word]]"
  have len: "length (?s 0) = 2" "length (?s 1) = 2"
    and inb: "unat (0 :: 32 word) + 2 \<le> length (?s 2)" "unat (1 :: 32 word) + 2 \<le> length (?s 2)"
    by (simp_all add: store_of_def)
  have "fetch [0, 1, 2] ?s = [[1, 2], [3, 4], [10, 20, 30]]"
    by (simp add: fetch_def store_of_def)
  with SubtractAndAddToAll_same_offsets [OF len inb refl refl] len inb
  show ?thesis by blast
qed

subsection \<open>C10: the two accumulators do not influence each other\<close>

text \<open>
  Claim C10 says that the final \<open>inputA\<close> depends only on the initial \<open>inputA\<close>, on
  \<open>delta\<close> and on the offsets of the A side, and symmetrically for \<open>inputB\<close>. The
  kernels take their arrays by reference. \<open>AddToAll\<close> called twice with the same array
  \<open>{1, 2}\<close> as \<open>inputA\<close> and \<open>inputB\<close>, the same \<open>delta = {10, 20, 30}\<close> and the
  same \<open>oA = 0\<close> leaves \<open>inputA = {31, 52}\<close> for \<open>oB = 1\<close> and
  \<open>inputA = {21, 42}\<close> for \<open>oB = 0\<close>.
\<close>

theorem cross_talk_aliased_counterexample:
  "length (store_of [[1, 2], [10, 20, 30 :: 16 word]] 0) = 2
   \<and> unat (0 :: 32 word) + 2 \<le> length (store_of [[1, 2], [10, 20, 30 :: 16 word]] 1)
   \<and> unat (1 :: 32 word) + 2 \<le> length (store_of [[1, 2], [10, 20, 30 :: 16 word]] 1)
   \<and> map_option (fetch [0])
        (AddToAll 2 0 0 1 0 1 (store_of [[1, 2], [10, 20, 30 :: 16 word]])) = Some [[31, 52]]
   \<and> map_option (fetch [0])
        (AddToAll 2 0 0 1 0 0 (store_of [[1, 2], [10, 20, 30 :: 16 word]])) = Some [[21, 42]]
   \<and> [31, 52] \<noteq> [21, 42 :: 16 word]"
  by (simp add: update_kernel_eval)

text \<open>
  Claim C10 as amended. Let \<open>inputA\<close> and \<open>inputB\<close> be two different arrays of
  \<open>InputSize\<close> elements (\<open>delta\<close> may be any array) and let all offsets keep their
  slices inside \<open>delta\<close>. For each of \<open>AddToAll\<close>, \<open>SubtractFromAll\<close> and
  \<open>SubtractAndAddToAll\<close>: a run from a state \<open>t\<close> that agrees with \<open>s\<close> on
  \<open>inputA\<close> and \<open>delta\<close>, with the same offsets of the A side (\<open>a1\<close>, and \<open>a2\<close>
  for the fused kernel) and any offsets of the B side, leaves the same \<open>inputA\<close> as the
  run from \<open>s\<close>; and a run from a state \<open>u\<close> that agrees with \<open>s\<close> on \<open>inputB\<close>
  and \<open>delta\<close>, with the same offsets of the B side and any offsets of the A side,
  leaves the same \<open>inputB\<close>. All runs succeed.
\<close>

theorem no_cross_talk:
  fixes s t u :: "'a::{plus,minus} store"
  assumes ne: "inputA \<noteq> inputB"
    and len: "length (s inputA) = InputSize" "length (s inputB) = InputSize"
    and t: "t inputA = s inputA" "t delta = s delta" "length (t inputB) = InputSize"
    and u: "u inputB = s inputB" "u delta = s delta" "length (u inputA) = InputSize"
    and a1: "unat a1 + InputSize \<le> length (s delta)" and a2: "unat a2 + InputSize \<le> length (s delta)"
    and b1: "unat b1 + InputSize \<le> length (s delta)" and b2: "unat b2 + InputSize \<le> length (s delta)"
    and a1': "unat a1' + InputSize \<le> length (s delta)" and a2': "unat a2' + InputSize \<le> length (s delta)"
    and b1': "unat b1' + InputSize \<le> length (s delta)" and b2': "unat b2' + InputSize \<le> length (s delta)"
  shows "(\<exists>s' t'. AddToAll InputSize inputA inputB delta a1 b1 s = Some s'
                 \<and> AddToAll InputSize inputA inputB delta a1 b1' t = Some t'
                 \<and> s' inputA = t' inputA)
       \<and> (\<exists>s' u'. AddToAll InputSize inputA inputB delta a1 b1 s = Some s'
                 \<and> AddToAll InputSize inputA inputB delta a1' b1 u = Some u'
                 \<and> s' inputB = u' inputB)
       \<and> (\<exists>s' t'. SubtractFromAll InputSize inputA inputB delta a1 b1 s = Some s'
                 \<and> SubtractFromAll InputSize inputA inputB delta a1 b1' t = Some t'
                 \<and> s' inputA = t' inputA)
       \<and> (\<exists>s' u'. SubtractFromAll InputSize inputA inputB delta a1 b1 s = Some s'
                 \<and> SubtractFromAll InputSize inputA inputB delta a1' b1 u = Some u'
                 \<and> s' inputB = u' inputB)
       \<and> (\<exists>s' t'. SubtractAndAddToAll InputSize inputA inputB delta a1 a2 b1 b2 s = Some s'
                 \<and> SubtractAndAddToAll InputSize inputA inputB delta a1 a2 b1' b2' t = Some t'
                 \<and> s' inputA = t' inputA)
       \<and> (\<exists>s' u'. SubtractAndAddToAll InputSize inputA inputB delta a1 a2 b1 b2 s = Some s'
                 \<and> SubtractAndAddToAll InputSize inputA inputB delta a1' a2' b1 b2 u = Some u'
                 \<and> s' inputB = u' inputB)"
proof -
  have lt: "length (t inputA) = InputSize" using t len by simp
  have lu: "length (u inputB) = InputSize" using u len by simp
  have tin: "unat off + InputSize \<le> length (s delta) \<Longrightarrow> unat off + InputSize \<le> length (t delta)"
    for off :: "32 word" using t by simp
  have uin: "unat off + InputSize \<le> length (s delta) \<Longrightarrow> unat off + InputSize \<le> length (u delta)"
    for off :: "32 word" using u by simp
  \<comment> \<open>when \<open>delta\<close> is \<open>inputA\<close>, every in-bounds offset is 0 and \<open>u inputA = s inputA\<close>\<close>
  have zero: "unat off = 0"
    if "delta = inputA" "unat off + InputSize \<le> length (s delta)" for off :: "32 word"
    using that len by simp
  have uA: "delta = inputA \<Longrightarrow> u inputA = s inputA" using u by simp
  have addA: "\<exists>s' t'. AddToAll InputSize inputA inputB delta a1 b1 s = Some s'
                 \<and> AddToAll InputSize inputA inputB delta a1 b1' t = Some t'
                 \<and> s' inputA = t' inputA"
    using ne t
    by (simp add: AddToAll_eq [OF len a1 b1] AddToAll_eq [OF lt t(3) tin [OF a1] tin [OF b1']]
        slice_update_apply)
  have subA: "\<exists>s' t'. SubtractFromAll InputSize inputA inputB delta a1 b1 s = Some s'
                 \<and> SubtractFromAll InputSize inputA inputB delta a1 b1' t = Some t'
                 \<and> s' inputA = t' inputA"
    using ne t
    by (simp add: SubtractFromAll_eq [OF len a1 b1]
        SubtractFromAll_eq [OF lt t(3) tin [OF a1] tin [OF b1']] slice_update_apply)
  have fusA: "\<exists>s' t'. SubtractAndAddToAll InputSize inputA inputB delta a1 a2 b1 b2 s = Some s'
                 \<and> SubtractAndAddToAll InputSize inputA inputB delta a1 a2 b1' b2' t = Some t'
                 \<and> s' inputA = t' inputA"
    using ne t
    by (simp add: SubtractAndAddToAll_eq [OF ne len a1 a2 b1 b2]
        SubtractAndAddToAll_eq [OF ne lt t(3) tin [OF a1] tin [OF a2] tin [OF b1'] tin [OF b2']]
        slice_update2_apply)
  have addB: "\<exists>s' u'. AddToAll InputSize inputA inputB delta a1 b1 s = Some s'
                 \<and> AddToAll InputSize inputA inputB delta a1' b1 u = Some u'
                 \<and> s' inputB = u' inputB"
  proof -
    note run_s = AddToAll_eq [OF len a1 b1]
    note run_u = AddToAll_eq [OF u(3) lu uin [OF a1'] uin [OF b1]]
    have "the (AddToAll InputSize inputA inputB delta a1 b1 s) inputB
        = the (AddToAll InputSize inputA inputB delta a1' b1 u) inputB"
    proof (cases "delta = inputA")
      case True
      with ne u uA zero [OF True a1] zero [OF True a1'] show ?thesis
        unfolding run_s run_u by (simp add: slice_update_apply)
    next
      case False
      with ne u show ?thesis
        unfolding run_s run_u by (simp add: slice_update_apply)
    qed
    then show ?thesis unfolding run_s run_u by simp
  qed
  have subB: "\<exists>s' u'. SubtractFromAll InputSize inputA inputB delta a1 b1 s = Some s'
                 \<and> SubtractFromAll InputSize inputA inputB delta a1' b1 u = Some u'
                 \<and> s' inputB = u' inputB"
  proof -
    note run_s = SubtractFromAll_eq [OF len a1 b1]
    note run_u = SubtractFromAll_eq [OF u(3) lu uin [OF a1'] uin [OF b1]]
    have "the (SubtractFromAll InputSize inputA inputB delta a1 b1 s) inputB
        = the (SubtractFromAll InputSize inputA inputB delta a1' b1 u) inputB"
    proof (cases "delta = inputA")
      case True
      with ne u uA zero [OF True a1] zero [OF True a1'] show ?thesis
        unfolding run_s run_u by (simp add: slice_update_apply)
    next
      case False
      with ne u show ?thesis
        unfolding run_s run_u by (simp add: slice_update_apply)
    qed
    then show ?thesis unfolding run_s run_u by simp
  qed
  have fusB: "\<exists>s' u'. SubtractAndAddToAll InputSize inputA inputB delta a1 a2 b1 b2 s = Some s'
                 \<and> SubtractAndAddToAll InputSize inputA inputB delta a1' a2' b1 b2 u = Some u'
                 \<and> s' inputB = u' inputB"
  proof -
    note run_s = SubtractAndAddToAll_eq [OF ne len a1 a2 b1 b2]
    note run_u = SubtractAndAddToAll_eq
      [OF ne u(3) lu uin [OF a1'] uin [OF a2'] uin [OF b1] uin [OF b2]]
    have "the (SubtractAndAddToAll InputSize inputA inputB delta a1 a2 b1 b2 s) inputB
        = the (SubtractAndAddToAll InputSize inputA inputB delta a1' a2' b1 b2 u) inputB"
    proof (cases "delta = inputA")
      case True
      with ne u uA zero [OF True a1] zero [OF True a1'] zero [OF True a2] zero [OF True a2']
      show ?thesis
        unfolding run_s run_u by (simp add: slice_update2_apply)
    next
      case False
      with ne u show ?thesis
        unfolding run_s run_u by (simp add: slice_update2_apply)
    qed
    then show ?thesis unfolding run_s run_u by simp
  qed
  from addA addB subA subB fusA fusB show ?thesis by blast
qed

theorem no_cross_talk_witness:
  "(0 :: nat) \<noteq> 1
   \<and> length (store_of [[1, 2], [3, 4], [10, 20, 30, 40 :: 16 word]] 0) = 2
   \<and> length (store_of [[1, 2], [3, 4], [10, 20, 30, 40 :: 16 word]] 1) = 2
   \<and> store_of [[1, 2], [7, 8], [10, 20, 30, 40 :: 16 word]] 0
       = store_of [[1, 2], [3, 4], [10, 20, 30, 40]] 0
   \<and> store_of [[1, 2], [7, 8], [10, 20, 30, 40 :: 16 word]] 2
       = store_of [[1, 2], [3, 4], [10, 20, 30, 40]] 2
   \<and> length (store_of [[1, 2], [7, 8], [10, 20, 30, 40 :: 16 word]] 1) = 2
   \<and> store_of [[5, 6], [3, 4], [10, 20, 30, 40 :: 16 word]] 1
       = store_of [[1, 2], [3, 4], [10, 20, 30, 40]] 1
   \<and> store_of [[5, 6], [3, 4], [10, 20, 30, 40 :: 16 word]] 2
       = store_of [[1, 2], [3, 4], [10, 20, 30, 40]] 2
   \<and> length (store_of [[5, 6], [3, 4], [10, 20, 30, 40 :: 16 word]] 0) = 2
   \<and> unat (0 :: 32 word) + 2 \<le> length (store_of [[1, 2], [3, 4], [10, 20, 30, 40 :: 16 word]] 2)
   \<and> unat (1 :: 32 word) + 2 \<le> length (store_of [[1, 2], [3, 4], [10, 20, 30, 40 :: 16 word]] 2)
   \<and> unat (2 :: 32 word) + 2 \<le> length (store_of [[1, 2], [3, 4], [10, 20, 30, 40 :: 16 word]] 2)
   \<and> map_option (fetch [0, 1])
        (AddToAll 2 0 1 2 0 1 (store_of [[1, 2], [3, 4], [10, 20, 30, 40 :: 16 word]]))
       = Some [[11, 22], [23, 34]]
   \<and> map_option (fetch [0])
        (AddToAll 2 0 1 2 0 2 (store_of [[1, 2], [7, 8], [10, 20, 30, 40 :: 16 word]]))
       = Some [[11, 22]]
   \<and> map_option (fetch [1])
        (AddToAll 2 0 1 2 2 1 (store_of [[5, 6], [3, 4], [10, 20, 30, 40 :: 16 word]]))
       = Some [[23, 34]]"
proof -
  let ?s = "store_of [[1, 2], [3, 4], [10, 20, 30, 40 :: 16 word]]"
  let ?t = "store_of [[1, 2], [7, 8], [10, 20, 30, 40 :: 16 word]]"
  let ?u = "store_of [[5, 6], [3, 4], [10, 20, 30, 40 :: 16 word]]"
  have ne: "(0 :: nat) \<noteq> 1" by simp
  have len: "length (?s 0) = 2" "length (?s 1) = 2"
    and t: "?t 0 = ?s 0" "?t 2 = ?s 2" "length (?t 1) = 2"
    and u: "?u 1 = ?s 1" "?u 2 = ?s 2" "length (?u 0) = 2"
    and in0: "unat (0 :: 32 word) + 2 \<le> length (?s 2)"
    and in1: "unat (1 :: 32 word) + 2 \<le> length (?s 2)"
    and in2: "unat (2 :: 32 word) + 2 \<le> length (?s 2)"
    by (simp_all add: store_of_def)
  have run: "map_option (fetch [0, 1]) (AddToAll 2 0 1 2 0 1 ?s) = Some [[11, 22], [23, 34]]"
    by (simp add: update_kernel_eval)
  note inst = no_cross_talk [OF ne len t u in0 in1 in1 in0 in2 in0 in2 in1]
  from inst obtain s' t' where "AddToAll 2 0 1 2 0 1 ?s = Some s'"
    and "AddToAll 2 0 1 2 0 2 ?t = Some t'" and "s' 0 = t' 0"
    by blast
  with run have runA: "map_option (fetch [0]) (AddToAll 2 0 1 2 0 2 ?t) = Some [[11, 22]]"
    by (simp add: fetch_def)
  from inst obtain s'' u' where "AddToAll 2 0 1 2 0 1 ?s = Some s''"
    and "AddToAll 2 0 1 2 2 1 ?u = Some u'" and "s'' 1 = u' 1"
    by blast
  with run have runB: "map_option (fetch [1]) (AddToAll 2 0 1 2 2 1 ?u) = Some [[23, 34]]"
    by (simp add: fetch_def)
  from run runA runB ne len t u in0 in1 in2 show ?thesis by blast
qed

end
